theory Spec2Isabelle
  imports Complex_Main
begin

section \<open>JavaScript numbers and strings\<close>

text \<open>
  The functions of \<^verbatim>\<open>core-js-dates-tasks.js\<close> compute with the host's numbers, strings
  and \<^verbatim>\<open>Date\<close> objects. A number is modelled as an integer or \<^verbatim>\<open>NaN\<close>: every
  number the functions handle is a time value, a calendar component or a day count, all
  integer-valued and far below \<open>2 ^ 53\<close>, where double arithmetic is exact.
\<close>

datatype number = NaN | Num int

fun js_add :: "number \<Rightarrow> number \<Rightarrow> number" where
  "js_add (Num a) (Num b) = Num (a + b)"
| "js_add _ _ = NaN"

fun js_sub :: "number \<Rightarrow> number \<Rightarrow> number" where
  "js_sub (Num a) (Num b) = Num (a - b)"
| "js_sub _ _ = NaN"

text \<open>Relational operators: every comparison with \<^verbatim>\<open>NaN\<close> is false.\<close>

fun js_le :: "number \<Rightarrow> number \<Rightarrow> bool" where
  "js_le (Num a) (Num b) = (a \<le> b)"
| "js_le _ _ = False"

fun js_lt :: "number \<Rightarrow> number \<Rightarrow> bool" where
  "js_lt (Num a) (Num b) = (a < b)"
| "js_lt _ _ = False"

definition js_ge :: "number \<Rightarrow> number \<Rightarrow> bool" where
  "js_ge a b = js_le b a"

definition js_gt :: "number \<Rightarrow> number \<Rightarrow> bool" where
  "js_gt a b = js_lt b a"

text \<open>
  \<^verbatim>\<open>Math.floor(a / b)\<close> and \<^verbatim>\<open>Math.ceil(a / b)\<close> for a positive integer constant
  \<open>b\<close>: the quotient is rounded at once, so no fraction is ever represented.
\<close>

fun Math_floor_quot :: "number \<Rightarrow> int \<Rightarrow> number" where
  "Math_floor_quot (Num a) b = Num (a div b)"
| "Math_floor_quot NaN b = NaN"

fun Math_ceil_quot :: "number \<Rightarrow> int \<Rightarrow> number" where
  "Math_ceil_quot (Num a) b = Num (- ((- a) div b))"
| "Math_ceil_quot NaN b = NaN"

text \<open>Decimal rendering of a number, as \<^verbatim>\<open>String(n)\<close> and template literals do.\<close>

definition digit_char :: "nat \<Rightarrow> char" where
  "digit_char n = ''0123456789'' ! (n mod 10)"

fun digits :: "nat \<Rightarrow> string" where
  "digits n = (if n < 10 then [digit_char n] else digits (n div 10) @ [digit_char n])"

declare digits.simps [simp del]

fun ToString :: "number \<Rightarrow> string" where
  "ToString NaN = ''NaN''"
| "ToString (Num i) = (if i < 0 then CHR ''-'' # digits (nat (- i)) else digits (nat i))"

text \<open>
  \<^verbatim>\<open>StringToNumber\<close>, restricted to what a \<^verbatim>\<open>DD-MM-YYYY\<close> field can hold: the empty
  string is \<open>0\<close>, a sequence of decimal digits is its value, and every other string is
  mapped to \<^verbatim>\<open>NaN\<close> (signs, fractions, exponents, radix prefixes and surrounding white
  space, which the host also reads, are left out).
\<close>

definition is_digit :: "char \<Rightarrow> bool" where
  "is_digit c = (c \<in> set ''0123456789'')"

definition digit_value :: "char \<Rightarrow> nat" where
  "digit_value c = of_char c - 48"

definition digits_value :: "string \<Rightarrow> nat" where
  "digits_value s = foldl (\<lambda>n c. 10 * n + digit_value c) 0 s"

definition StringToNumber :: "string \<Rightarrow> number" where
  "StringToNumber s =
     (if list_all is_digit s then Num (int (digits_value s)) else NaN)"

text \<open>\<^verbatim>\<open>ToNumber\<close> of an array element that may be absent (\<^verbatim>\<open>undefined\<close> is \<^verbatim>\<open>NaN\<close>).\<close>

fun ToNumber :: "string option \<Rightarrow> number" where
  "ToNumber None = NaN"
| "ToNumber (Some s) = StringToNumber s"

text \<open>\<^verbatim>\<open>s.split(c)\<close> for a one-character separator.\<close>

fun split :: "char \<Rightarrow> string \<Rightarrow> string list" where
  "split c [] = [[]]"
| "split c (x # xs) =
     (if x = c then [] # split c xs
      else (case split c xs of [] \<Rightarrow> [[x]] | w # ws \<Rightarrow> (x # w) # ws))"

text \<open>Array destructuring reads by index; a missing element is \<^verbatim>\<open>undefined\<close>.\<close>

definition element :: "'a list \<Rightarrow> nat \<Rightarrow> 'a option" where
  "element xs i = (if i < length xs then Some (xs ! i) else None)"

text \<open>\<^verbatim>\<open>s.slice(-2)\<close>: the last two characters, or all of a shorter string.\<close>

definition slice_last2 :: "string \<Rightarrow> string" where
  "slice_last2 s = drop (length s - 2) s"

section \<open>The host's Date, after ECMAScript's time-value arithmetic\<close>

text \<open>
  A \<^verbatim>\<open>Date\<close> holds a time value: milliseconds since 1970-01-01T00:00:00Z, or
  \<^verbatim>\<open>NaN\<close> for an invalid date. The definitions follow the abstract operations of the
  language specification (Day, TimeWithinDay, DayFromYear, YearFromTime, MonthFromTime,
  DateFromTime, WeekDay, MakeTime, MakeDay, MakeDate, TimeClip, LocalTime, UTC).
\<close>

definition msPerDay :: int where
  "msPerDay = 86400000"

definition maxTime :: int where
  "maxTime = 8640000000000000"

definition Day :: "int \<Rightarrow> int" where
  "Day t = t div msPerDay"

definition TimeWithinDay :: "int \<Rightarrow> int" where
  "TimeWithinDay t = t mod msPerDay"

definition DaysInYear :: "int \<Rightarrow> int" where
  "DaysInYear y =
     (if y mod 4 \<noteq> 0 then 365 else if y mod 100 \<noteq> 0 then 366
      else if y mod 400 \<noteq> 0 then 365 else 366)"

definition DayFromYear :: "int \<Rightarrow> int" where
  "DayFromYear y =
     365 * (y - 1970) + (y - 1969) div 4 - (y - 1901) div 100 + (y - 1601) div 400"

text \<open>
  YearFromTime is the largest year whose first day is not after the day of \<open>t\<close>. It is
  computed from the mean length of a Gregorian year (146097 days in 400 years), which is
  off by at most one year, and then adjusted.
\<close>

definition YearFromDay :: "int \<Rightarrow> int" where
  "YearFromDay d =
     (let y = 1970 + (400 * d) div 146097
      in if DayFromYear (y + 1) \<le> d then y + 1
         else if DayFromYear y \<le> d then y else y - 1)"

definition YearFromTime :: "int \<Rightarrow> int" where
  "YearFromTime t = YearFromDay (Day t)"

definition InLeapYear :: "int \<Rightarrow> int" where
  "InLeapYear t = (if DaysInYear (YearFromTime t) = 366 then 1 else 0)"

definition DayWithinYear :: "int \<Rightarrow> int" where
  "DayWithinYear t = Day t - DayFromYear (YearFromTime t)"

text \<open>The day within the year on which month \<open>m\<close> (0 to 11) begins.\<close>

definition monthStart :: "int \<Rightarrow> int \<Rightarrow> int" where
  "monthStart m leap =
     (if m = 0 then 0 else if m = 1 then 31 else if m = 2 then 59 + leap
      else if m = 3 then 90 + leap else if m = 4 then 120 + leap
      else if m = 5 then 151 + leap else if m = 6 then 181 + leap
      else if m = 7 then 212 + leap else if m = 8 then 243 + leap
      else if m = 9 then 273 + leap else if m = 10 then 304 + leap
      else 334 + leap)"

definition MonthFromTime :: "int \<Rightarrow> int" where
  "MonthFromTime t =
     (let d = DayWithinYear t; leap = InLeapYear t
      in if d < 31 then 0 else if d < 59 + leap then 1 else if d < 90 + leap then 2
         else if d < 120 + leap then 3 else if d < 151 + leap then 4
         else if d < 181 + leap then 5 else if d < 212 + leap then 6
         else if d < 243 + leap then 7 else if d < 273 + leap then 8
         else if d < 304 + leap then 9 else if d < 334 + leap then 10 else 11)"

definition DateFromTime :: "int \<Rightarrow> int" where
  "DateFromTime t = DayWithinYear t - monthStart (MonthFromTime t) (InLeapYear t) + 1"

definition WeekDay :: "int \<Rightarrow> int" where
  "WeekDay t = (Day t + 4) mod 7"

definition HourFromTime :: "int \<Rightarrow> int" where
  "HourFromTime t = (t div 3600000) mod 24"

definition MinFromTime :: "int \<Rightarrow> int" where
  "MinFromTime t = (t div 60000) mod 60"

definition SecFromTime :: "int \<Rightarrow> int" where
  "SecFromTime t = (t div 1000) mod 60"

definition MakeTime :: "int \<Rightarrow> int \<Rightarrow> int \<Rightarrow> int \<Rightarrow> int" where
  "MakeTime h m s ms = h * 3600000 + m * 60000 + s * 1000 + ms"

text \<open>
  MakeDay accepts any month and any day of the month: months outside 0 to 11 carry into
  the year, and the day counts on from the first of the month, so that day 32 of January
  is February 1 and day 0 is the last day of the month before.
\<close>

definition MakeDay :: "int \<Rightarrow> int \<Rightarrow> int \<Rightarrow> int" where
  "MakeDay year month date =
     (let ym = year + month div 12; mn = month mod 12
      in DayFromYear ym + monthStart mn (if DaysInYear ym = 366 then 1 else 0) + date - 1)"

definition MakeDate :: "int \<Rightarrow> int \<Rightarrow> int" where
  "MakeDate day time = day * msPerDay + time"

definition TimeClip :: "int \<Rightarrow> number" where
  "TimeClip t = (if \<bar>t\<bar> \<le> maxTime then Num t else NaN)"

text \<open>
  Local time is displaced from UTC by the offset of the host's time zone, in
  milliseconds. The offset depends on the instant (daylight saving), so a zone is the
  function \<^verbatim>\<open>LocalTZA(t, isUTC)\<close> of the language specification: with \<open>isUTC\<close> true
  it is the offset in force at the time value \<open>t\<close>, with \<open>isUTC\<close> false the offset
  in force at the local time \<open>t\<close> (a local time that a transition skips or repeats
  being read with the offset before the transition). The zone is a parameter of every
  function that reads or builds local components.
\<close>

type_synonym zone = "int \<Rightarrow> bool \<Rightarrow> int"

definition LocalTime :: "zone \<Rightarrow> int \<Rightarrow> int" where
  "LocalTime tz t = t + tz t True"

definition UTC :: "zone \<Rightarrow> int \<Rightarrow> int" where
  "UTC tz t = t - tz t False"

text \<open>A zone without transitions: one offset at every instant (UTC is \<open>fixed_offset 0\<close>).\<close>

definition fixed_offset :: "int \<Rightarrow> zone" where
  "fixed_offset tza = (\<lambda>t isUTC. tza)"

text \<open>
  The offsets of America/New_York in 2024: five hours behind UTC, and four hours behind
  from 2024-03-10T07:00Z (02:00 local, when the clocks go to 03:00) until
  2024-11-03T06:00Z (02:00 local, when they go back to 01:00). The transitions of other
  years are left out.
\<close>

definition New_York_2024 :: zone where
  "New_York_2024 t isUTC =
     (if isUTC then (if 1710054000000 \<le> t \<and> t < 1730613600000 then - 14400000
                     else - 18000000)
      else (if 1710039600000 \<le> t \<and> t < 1730599200000 then - 14400000
            else - 18000000))"

text \<open>
  \<^verbatim>\<open>new Date(year, month, day)\<close>: local midnight of the given day. A year from 0 to 99
  stands for 1900 + year.
\<close>

fun Date_of_components :: "zone \<Rightarrow> number \<Rightarrow> number \<Rightarrow> number \<Rightarrow> number" where
  "Date_of_components tz (Num y) (Num m) (Num dt) =
     (let yr = (if 0 \<le> y \<and> y \<le> 99 then 1900 + y else y)
      in TimeClip (UTC tz (MakeDate (MakeDay yr m dt) (MakeTime 0 0 0 0))))"
| "Date_of_components tz _ _ _ = NaN"

fun lift_time :: "(int \<Rightarrow> int) \<Rightarrow> number \<Rightarrow> number" where
  "lift_time f (Num t) = Num (f t)"
| "lift_time f NaN = NaN"

definition getFullYear :: "zone \<Rightarrow> number \<Rightarrow> number" where
  "getFullYear tz = lift_time (\<lambda>t. YearFromTime (LocalTime tz t))"

definition getMonth :: "zone \<Rightarrow> number \<Rightarrow> number" where
  "getMonth tz = lift_time (\<lambda>t. MonthFromTime (LocalTime tz t))"

definition getDate :: "zone \<Rightarrow> number \<Rightarrow> number" where
  "getDate tz = lift_time (\<lambda>t. DateFromTime (LocalTime tz t))"

definition getDay :: "zone \<Rightarrow> number \<Rightarrow> number" where
  "getDay tz = lift_time (\<lambda>t. WeekDay (LocalTime tz t))"

definition getUTCFullYear :: "number \<Rightarrow> number" where
  "getUTCFullYear = lift_time YearFromTime"

definition getUTCMonth :: "number \<Rightarrow> number" where
  "getUTCMonth = lift_time MonthFromTime"

definition getUTCDate :: "number \<Rightarrow> number" where
  "getUTCDate = lift_time DateFromTime"

definition getUTCDay :: "number \<Rightarrow> number" where
  "getUTCDay = lift_time WeekDay"

definition getUTCHours :: "number \<Rightarrow> number" where
  "getUTCHours = lift_time HourFromTime"

definition getUTCMinutes :: "number \<Rightarrow> number" where
  "getUTCMinutes = lift_time MinFromTime"

definition getUTCSeconds :: "number \<Rightarrow> number" where
  "getUTCSeconds = lift_time SecFromTime"

text \<open>
  \<^verbatim>\<open>d.setDate(dt)\<close>: the new time value of \<open>d\<close>; the day of the month is replaced and
  the local year, month and time of day are kept.
\<close>

fun setDate :: "zone \<Rightarrow> number \<Rightarrow> number \<Rightarrow> number" where
  "setDate tz (Num t) (Num dt) =
     (let lt = LocalTime tz t;
          newDate = MakeDate (MakeDay (YearFromTime lt) (MonthFromTime lt) dt) (TimeWithinDay lt)
      in TimeClip (UTC tz newDate))"
| "setDate tz _ _ = NaN"


text \<open>
  \<^verbatim>\<open>new Date(string)\<close> and \<^verbatim>\<open>Date.parse\<close>, for the two ISO 8601 forms the functions
  document: the date-only form \<^verbatim>\<open>YYYY-MM-DD\<close> (midnight UTC) and the full form
  \<^verbatim>\<open>YYYY-MM-DDTHH:mm:ss.sssZ\<close>. Every other string is mapped to an invalid date; what
  the host makes of other formats is implementation-defined.
\<close>

definition digits_at :: "string \<Rightarrow> nat \<Rightarrow> nat \<Rightarrow> bool" where
  "digits_at s i n = list_all is_digit (take n (drop i s))"

definition num_at :: "string \<Rightarrow> nat \<Rightarrow> nat \<Rightarrow> int" where
  "num_at s i n = int (digits_value (take n (drop i s)))"

definition iso_date_ok :: "string \<Rightarrow> bool" where
  "iso_date_ok s =
     (digits_at s 0 4 \<and> s ! 4 = CHR ''-'' \<and> digits_at s 5 2 \<and> s ! 7 = CHR ''-'' \<and>
      digits_at s 8 2 \<and> 1 \<le> num_at s 5 2 \<and> num_at s 5 2 \<le> 12 \<and>
      1 \<le> num_at s 8 2 \<and> num_at s 8 2 \<le> 31)"

definition iso_time_ok :: "string \<Rightarrow> bool" where
  "iso_time_ok s =
     (s ! 10 = CHR ''T'' \<and> digits_at s 11 2 \<and> s ! 13 = CHR '':'' \<and> digits_at s 14 2 \<and>
      s ! 16 = CHR '':'' \<and> digits_at s 17 2 \<and> s ! 19 = CHR ''.'' \<and> digits_at s 20 3 \<and>
      s ! 23 = CHR ''Z'' \<and> num_at s 11 2 \<le> 23 \<and> num_at s 14 2 \<le> 59 \<and>
      num_at s 17 2 \<le> 59)"

definition Date_parse :: "string \<Rightarrow> number" where
  "Date_parse s =
     (if length s = 10 \<and> iso_date_ok s then
        TimeClip (MakeDate (MakeDay (num_at s 0 4) (num_at s 5 2 - 1) (num_at s 8 2))
                           (MakeTime 0 0 0 0))
      else if length s = 24 \<and> iso_date_ok s \<and> iso_time_ok s then
        TimeClip (MakeDate (MakeDay (num_at s 0 4) (num_at s 5 2 - 1) (num_at s 8 2))
                           (MakeTime (num_at s 11 2) (num_at s 14 2) (num_at s 17 2)
                                     (num_at s 20 3)))
      else NaN)"

text \<open>
  Date objects are mutable and passed by reference. Where a function mutates its
  argument, the objects live in a store: the list of the time values of the objects
  allocated so far, a reference being an index into it.
\<close>

type_synonym ref = nat

type_synonym heap = "number list"

datatype error = TypeError

definition new_Date :: "number \<Rightarrow> heap \<Rightarrow> ref \<times> heap" where
  "new_Date tv h = (length h, h @ [tv])"

section \<open>The functions of core-js-dates-tasks.js\<close>

text \<open>
  A function that only reads its \<^verbatim>\<open>Date\<close> argument begins with
  \<^verbatim>\<open>new Date(date)\<close>, a private copy of the time value; it is modelled on the time value.
\<close>

subsection \<open>getNextFriday\<close>

text \<open>
  The argument is a reference to the caller's object. A reference that names no Date
  object makes \<^verbatim>\<open>date.setDate\<close> throw.
\<close>

definition getNextFriday :: "zone \<Rightarrow> ref \<Rightarrow> heap \<Rightarrow> error + (ref \<times> heap)" where
  "getNextFriday tz date h =
     (case element h date of
        None \<Rightarrow> Inl TypeError
      | Some tv \<Rightarrow>
          (let (newDate, h1) = new_Date tv h;
               currentDay = getUTCDay (h1 ! newDate);
               addedDays = js_sub (Num 5) currentDay;
               addedDays = (if js_ge currentDay (Num 5) then js_add addedDays (Num 7)
                            else addedDays);
               h2 = h1[date := setDate tz (h1 ! date)
                                (js_add (getDate tz (h1 ! newDate)) addedDays)]
           in Inr (date, h2)))"

subsection \<open>isDateInPeriod\<close>

record DatePeriod =
  period_start :: string
  period_end :: string

definition isDateInPeriod :: "string \<Rightarrow> DatePeriod \<Rightarrow> bool" where
  "isDateInPeriod date period =
     (let dateStart = Date_parse (period_start period);
          dateEnd = Date_parse (period_end period);
          givenDate = Date_parse date
      in js_ge givenDate dateStart \<and> js_le givenDate dateEnd)"

subsection \<open>formatDate\<close>

definition formatDate :: "string \<Rightarrow> string" where
  "formatDate date =
     (let newDate = Date_parse date;
          month = getUTCMonth newDate;
          day = getUTCDate newDate;
          year = getUTCFullYear newDate;
          hours = getUTCHours newDate;
          minutes = (if length (ToString (getUTCMinutes newDate)) < 2
                     then CHR ''0'' # ToString (getUTCMinutes newDate)
                     else ToString (getUTCMinutes newDate));
          seconds = (if length (ToString (getUTCSeconds newDate)) < 2
                     then CHR ''0'' # ToString (getUTCSeconds newDate)
                     else ToString (getUTCSeconds newDate));
          time = (if js_gt hours (Num 12)
                  then ToString (js_sub hours (Num 12)) @ '':'' @ minutes @ '':'' @ seconds @ '' PM''
                  else if hours = Num 12
                  then ToString hours @ '':'' @ minutes @ '':'' @ seconds @ '' PM''
                  else ToString hours @ '':'' @ minutes @ '':'' @ seconds @ '' AM'')
      in ToString (js_add month (Num 1)) @ ''/'' @ ToString day @ ''/'' @ ToString year
           @ '', '' @ time)"

subsection \<open>getWeekNumberByDate\<close>

definition getWeekNumberByDate :: "zone \<Rightarrow> number \<Rightarrow> number" where
  "getWeekNumberByDate tz date =
     (let newDate = date;
          startOfTheYear = Date_of_components tz (getFullYear tz newDate) (Num 0) (Num 1);
          daysAfterStartOfTheYear =
            Math_floor_quot (js_sub newDate startOfTheYear) (24 * 60 * 60 * 1000);
          startOfTheWeek = (if getDay tz startOfTheYear = Num 0 then Num 7
                            else getDay tz startOfTheYear)
      in Math_ceil_quot (js_add daysAfterStartOfTheYear startOfTheWeek) 7)"

subsection \<open>getNextFridayThe13th\<close>

text \<open>
  The \<^verbatim>\<open>while\<close> loop has no bound; it is a partial function whose value \<open>None\<close> is
  the run that never leaves the loop. The loop ends in the iteration that sets
  \<^verbatim>\<open>isFriday13\<close>, with \<^verbatim>\<open>friday13\<close> the date built in that iteration.
\<close>

partial_function (option) friday13_loop ::
  "zone \<Rightarrow> number \<Rightarrow> number \<Rightarrow> number \<Rightarrow> number option" where
  "friday13_loop tz year month givenDay =
     (let nextFullDate = Date_of_components tz year month givenDay;
          nextDay = getDay tz nextFullDate;
          nextDate = getDate tz nextFullDate
      in if nextDay = Num 5 \<and> nextDate = Num 13 then Some nextFullDate
         else friday13_loop tz year month (js_add givenDay (Num 1)))"

declare friday13_loop.simps [code]

definition getNextFridayThe13th :: "zone \<Rightarrow> number \<Rightarrow> number option" where
  "getNextFridayThe13th tz date =
     (let newDate = date;
          givenDay = getDay tz newDate;
          year = getFullYear tz newDate;
          month = getMonth tz newDate
      in friday13_loop tz year month givenDay)"

subsection \<open>getWorkSchedule\<close>

definition formatScheduleDate :: "zone \<Rightarrow> number \<Rightarrow> string" where
  "formatScheduleDate tz date =
     (let d = slice_last2 (CHR ''0'' # ToString (getDate tz date));
          m = slice_last2 (CHR ''0'' # ToString (js_add (getMonth tz date) (Num 1)));
          y = ToString (getFullYear tz date)
      in d @ ''-'' @ m @ ''-'' @ y)"

text \<open>The inner \<^verbatim>\<open>for\<close> loop: the state is the counter, the current date and the schedule.\<close>

function work_days ::
  "zone \<Rightarrow> number \<Rightarrow> int \<Rightarrow> int \<Rightarrow> number \<Rightarrow> string list \<Rightarrow> number \<times> string list" where
  "work_days tz endDate countWorkDays i currentDate schedule =
     (if i < countWorkDays \<and> js_le currentDate endDate
      then work_days tz endDate countWorkDays (i + 1)
             (setDate tz currentDate (js_add (getDate tz currentDate) (Num 1)))
             (schedule @ [formatScheduleDate tz currentDate])
      else (currentDate, schedule))"
  by pat_completeness auto
termination
  by (relation "measure (\<lambda>(tz, endDate, countWorkDays, i, currentDate, schedule).
                           nat (countWorkDays - i))") auto

declare work_days.simps [simp del]

text \<open>The outer \<^verbatim>\<open>while\<close> loop may run forever, so it is a partial function.\<close>

partial_function (option) schedule_loop ::
  "zone \<Rightarrow> number \<Rightarrow> int \<Rightarrow> int \<Rightarrow> number \<Rightarrow> string list \<Rightarrow> string list option" where
  "schedule_loop tz endDate countWorkDays countOffDays currentDate schedule =
     (if js_le currentDate endDate then
        (case work_days tz endDate countWorkDays 0 currentDate schedule of
           (currentDate1, schedule1) \<Rightarrow>
             schedule_loop tz endDate countWorkDays countOffDays
               (if js_le currentDate1 endDate
                then setDate tz currentDate1
                       (js_add (getDate tz currentDate1) (Num countOffDays))
                else currentDate1)
               schedule1)
      else Some schedule)"

declare schedule_loop.simps [code]

definition parse_schedule_date :: "zone \<Rightarrow> string \<Rightarrow> number" where
  "parse_schedule_date tz s =
     (let parts = split CHR ''-'' s;
          day = element parts 0; month = element parts 1; year = element parts 2
      in Date_of_components tz (ToNumber year) (js_sub (ToNumber month) (Num 1))
           (ToNumber day))"

definition getWorkSchedule :: "zone \<Rightarrow> DatePeriod \<Rightarrow> int \<Rightarrow> int \<Rightarrow> string list option" where
  "getWorkSchedule tz period countWorkDays countOffDays =
     (let startDate = parse_schedule_date tz (period_start period);
          endDate = parse_schedule_date tz (period_end period);
          currentDate = startDate
      in schedule_loop tz endDate countWorkDays countOffDays currentDate [])"

section \<open>What the specification states, for comparison\<close>

text \<open>
  The week number as the specification words it: the days elapsed since January 1 of
  the date's local year, plus an offset that is 1 when January 1 is a Monday and so on up
  to 7 when it is a Sunday, divided by 7 and rounded up.
\<close>

definition weekNumber_claimed :: "zone \<Rightarrow> int \<Rightarrow> int" where
  "weekNumber_claimed tz t =
     (let lt = LocalTime tz t;
          jan1 = DayFromYear (YearFromTime lt) * msPerDay;
          offset = (if WeekDay jan1 = 0 then 7 else WeekDay jan1)
      in \<lceil>real_of_int (Day lt - Day jan1 + offset) / 7\<rceil>)"

text \<open>
  The schedule as the specification words it, on time values: from \<open>s\<close> on, runs of
  \<open>w\<close> consecutive days are emitted and the \<open>off\<close> days after each run are skipped,
  up to the last day that is not after \<open>e\<close>. Counting the days from \<open>s\<close> as 0, 1, 2
  and so on, day \<open>j\<close> is emitted when \<open>j mod (w + off) < w\<close>.
\<close>

definition work_cycle_days :: "int \<Rightarrow> int \<Rightarrow> int \<Rightarrow> int \<Rightarrow> int list" where
  "work_cycle_days s e w off =
     map (\<lambda>j. s + int j * msPerDay)
       (filter (\<lambda>j. int j mod (w + off) < w) [0..<nat ((e - s) div msPerDay + 1)])"

section \<open>Properties of the time-value arithmetic\<close>

lemma LocalTime_fixed: "LocalTime (fixed_offset tza) t = t + tza"
  by (simp add: LocalTime_def fixed_offset_def)

lemma UTC_fixed: "UTC (fixed_offset tza) t = t - tza"
  by (simp add: UTC_def fixed_offset_def)

lemma msPerDay_pos: "0 < msPerDay"
  by (simp add: msPerDay_def)

lemma MonthFromTime_range: "0 \<le> MonthFromTime t \<and> MonthFromTime t \<le> 11"
  by (simp add: MonthFromTime_def Let_def)

lemma WeekDay_range: "0 \<le> WeekDay t \<and> WeekDay t < 7"
  by (simp add: WeekDay_def)

text \<open>
  Rebuilding a day from the year, month and date of a time value gives back its day
  number, and a day of the month beyond the month's end counts on into the next months.
\<close>

lemma MakeDay_of_time:
  "MakeDay (YearFromTime t) (MonthFromTime t) (DateFromTime t + k) = Day t + k"
proof -
  have m: "MonthFromTime t div 12 = 0" "MonthFromTime t mod 12 = MonthFromTime t"
    using MonthFromTime_range [of t] by simp_all
  show ?thesis
    by (simp add: MakeDay_def m DateFromTime_def DayWithinYear_def InLeapYear_def)
qed

lemma MakeDate_Day: "MakeDate (Day t + k) (TimeWithinDay t) = t + k * msPerDay"
  by (simp add: MakeDate_def Day_def TimeWithinDay_def algebra_simps)

text \<open>\<^verbatim>\<open>d.setDate(d.getDate() + k)\<close> moves a valid date by \<open>k\<close> whole days.\<close>

lemma setDate_advance:
  "setDate (fixed_offset tza) (Num t) (js_add (getDate (fixed_offset tza) (Num t)) (Num k)) = TimeClip (t + k * msPerDay)"
  by (simp add: getDate_def Let_def MakeDay_of_time MakeDate_Day LocalTime_fixed UTC_fixed)

lemma WeekDay_advance: "WeekDay (t + k * msPerDay) = (WeekDay t + k) mod 7"
  using msPerDay_pos by (simp add: WeekDay_def Day_def mod_simps add.commute add.left_commute)

lemma TimeClip_moved: "x \<noteq> 0 \<Longrightarrow> TimeClip (t + x) \<noteq> Num t"
  by (simp add: TimeClip_def)

text \<open>
  YearFromDay is the year the specification asks for: the year whose days include \<open>d\<close>.
\<close>

lemma div_bounds:
  fixes x k :: int
  assumes "0 < k"
  shows "k * (x div k) \<le> x" "x < k * (x div k) + k"
proof -
  have "x = k * (x div k) + x mod k" by simp
  moreover have "0 \<le> x mod k" "x mod k < k" using assms by simp_all
  ultimately show "k * (x div k) \<le> x" "x < k * (x div k) + k" by linarith+
qed

lemma DayFromYear_near_mean:
  "146097 * (y - 1970) - 600 \<le> 400 * DayFromYear y"
  "400 * DayFromYear y \<le> 146097 * (y - 1970) + 600"
proof -
  define a where "a = (y - 1969) div 4"
  define b where "b = (y - 1901) div 100"
  define c where "c = (y - 1601) div 400"
  have a: "4 * a \<le> y - 1969" "y - 1969 < 4 * a + 4"
    unfolding a_def by (rule div_bounds; simp)+
  have b: "100 * b \<le> y - 1901" "y - 1901 < 100 * b + 100"
    unfolding b_def by (rule div_bounds; simp)+
  have c: "400 * c \<le> y - 1601" "y - 1601 < 400 * c + 400"
    unfolding c_def by (rule div_bounds; simp)+
  have d: "DayFromYear y = 365 * (y - 1970) + a - b + c"
    by (simp add: DayFromYear_def a_def b_def c_def)
  have a': "100 * y - 197200 \<le> 400 * a" "400 * a \<le> 100 * y - 196900"
    using a by linarith+
  have b': "4 * y - 8000 \<le> 400 * b" "400 * b \<le> 4 * y - 7604"
    using b by linarith+
  have c': "y - 2000 \<le> 400 * c" "400 * c \<le> y - 1601"
    using c by linarith+
  show "146097 * (y - 1970) - 600 \<le> 400 * DayFromYear y"
    unfolding d using a' b' c' by simp
  show "400 * DayFromYear y \<le> 146097 * (y - 1970) + 600"
    unfolding d using a' b' c' by simp
qed

lemma YearFromDay_bounds:
  "DayFromYear (YearFromDay d) \<le> d \<and> d < DayFromYear (YearFromDay d + 1)"
proof -
  define q where "q = (400 * d) div 146097"
  have q: "146097 * q \<le> 400 * d" "400 * d < 146097 * q + 146097"
    unfolding q_def by (rule div_bounds; simp)+
  have lo: "DayFromYear (1970 + q - 1) \<le> d"
    using DayFromYear_near_mean(2) [of "1970 + q - 1"] q by simp
  have hi: "d < DayFromYear (1970 + q + 1 + 1)"
    using DayFromYear_near_mean(1) [of "1970 + q + 1 + 1"] q by simp
  show ?thesis
    using lo hi by (simp add: YearFromDay_def Let_def q_def [symmetric])
qed

lemma div_next:
  fixes x k :: int
  assumes "0 < k"
  shows "(x + 1) div k = x div k + (if (x + 1) mod k = 0 then 1 else 0)"
proof -
  have r: "0 \<le> x mod k" "x mod k < k" using assms by simp_all
  show ?thesis
  proof (cases "x mod k + 1 < k")
    case True
    have e: "x + 1 = k * (x div k) + (x mod k + 1)" by simp
    have p: "0 \<le> x mod k + 1" using r by linarith
    have "(x + 1) div k = x div k"
      by (rule int_div_pos_eq [OF e p True])
    moreover have "(x + 1) mod k = x mod k + 1"
      by (rule int_mod_pos_eq [OF e p True])
    moreover have "x mod k + 1 \<noteq> 0" using r by linarith
    ultimately show ?thesis by simp
  next
    case False
    then have "x mod k = k - 1" using r by linarith
    then have "x = k * (x div k) + (k - 1)"
      using mult_div_mod_eq [of k x] by simp
    then have e: "x + 1 = k * (x div k + 1) + 0"
      by (simp add: algebra_simps)
    have "(x + 1) div k = x div k + 1"
      by (rule int_div_pos_eq [OF e _ assms]) simp
    moreover have "(x + 1) mod k = 0"
      by (rule int_mod_pos_eq [OF e _ assms]) simp
    ultimately show ?thesis by simp
  qed
qed

lemma mod_shift:
  fixes y :: int
  shows "(y - 1969 + 1) mod 4 = y mod 4" "(y - 1901 + 1) mod 100 = y mod 100"
    "(y - 1601 + 1) mod 400 = y mod 400"
proof -
  have "y - 1969 + 1 = y + 4 * (- 492)" by simp
  then show "(y - 1969 + 1) mod 4 = y mod 4" by (simp only: mod_mult_self2)
  have "y - 1901 + 1 = y + 100 * (- 19)" by simp
  then show "(y - 1901 + 1) mod 100 = y mod 100" by (simp only: mod_mult_self2)
  have "y - 1601 + 1 = y + 400 * (- 4)" by simp
  then show "(y - 1601 + 1) mod 400 = y mod 400" by (simp only: mod_mult_self2)
qed

lemma leap_divisibility:
  fixes y :: int
  shows "y mod 100 = 0 \<Longrightarrow> y mod 4 = 0" "y mod 400 = 0 \<Longrightarrow> y mod 100 = 0"
proof -
  have "(4::int) dvd 100" "(100::int) dvd 400" by simp_all
  then show "y mod 100 = 0 \<Longrightarrow> y mod 4 = 0" "y mod 400 = 0 \<Longrightarrow> y mod 100 = 0"
    by (auto simp only: mod_eq_0_iff_dvd intro: dvd_trans)
qed

lemma DayFromYear_step: "DayFromYear (y + 1) = DayFromYear y + DaysInYear y"
proof -
  have a: "(y - 1968) div 4 = (y - 1969) div 4 + (if y mod 4 = 0 then 1 else 0)"
    using div_next [of 4 "y - 1969"] mod_shift(1) [of y] by simp
  have b: "(y - 1900) div 100 = (y - 1901) div 100 + (if y mod 100 = 0 then 1 else 0)"
    using div_next [of 100 "y - 1901"] mod_shift(2) [of y] by simp
  have c: "(y - 1600) div 400 = (y - 1601) div 400 + (if y mod 400 = 0 then 1 else 0)"
    using div_next [of 400 "y - 1601"] mod_shift(3) [of y] by simp
  show ?thesis
    using leap_divisibility [of y]
    by (simp add: a b c DayFromYear_def DaysInYear_def)
qed

lemma DayWithinYear_range:
  "0 \<le> DayWithinYear t \<and> DayWithinYear t < DaysInYear (YearFromTime t)"
  using YearFromDay_bounds [of "Day t"] DayFromYear_step [of "YearFromTime t"]
  by (simp add: DayWithinYear_def YearFromTime_def)

lemma DaysInYear_cases: "DaysInYear y = 365 \<or> DaysInYear y = 366"
  by (simp add: DaysInYear_def)

lemma DateFromTime_range: "1 \<le> DateFromTime t \<and> DateFromTime t \<le> 31"
proof -
  define d where "d = DayWithinYear t"
  have d: "0 \<le> d" "d < DaysInYear (YearFromTime t)"
    using DayWithinYear_range [of t] by (simp_all add: d_def)
  show ?thesis
  proof (cases "DaysInYear (YearFromTime t) = 366")
    case True
    then show ?thesis using d
      by (simp add: DateFromTime_def MonthFromTime_def monthStart_def InLeapYear_def Let_def
          d_def [symmetric])
  next
    case False
    then have "DaysInYear (YearFromTime t) = 365"
      using DaysInYear_cases [of "YearFromTime t"] by simp
    then show ?thesis using d
      by (simp add: DateFromTime_def MonthFromTime_def monthStart_def InLeapYear_def Let_def
          d_def [symmetric])
  qed
qed

lemma DayFromYear_less: "DayFromYear y < DayFromYear (y + 1)"
  using DaysInYear_cases [of y] by (auto simp add: DayFromYear_step)

lemma DayFromYear_mono_nat: "DayFromYear y \<le> DayFromYear (y + int n)"
proof (induction n)
  case 0
  then show ?case by simp
next
  case (Suc n)
  have e: "y + int (Suc n) = y + int n + 1" by simp
  have "DayFromYear (y + int n) < DayFromYear (y + int n + 1)" by (rule DayFromYear_less)
  then show ?case unfolding e using Suc by linarith
qed

lemma DayFromYear_mono: "a \<le> b \<Longrightarrow> DayFromYear a \<le> DayFromYear b"
  using DayFromYear_mono_nat [of a "nat (b - a)"] by simp

lemma YearFromDay_unique:
  assumes "DayFromYear y \<le> d" and "d < DayFromYear (y + 1)"
  shows "YearFromDay d = y"
proof -
  define z where "z = YearFromDay d"
  have z: "DayFromYear z \<le> d" "d < DayFromYear (z + 1)"
    using YearFromDay_bounds [of d] by (simp_all add: z_def)
  have "\<not> z + 1 \<le> y"
    using DayFromYear_mono [of "z + 1" y] z(2) assms(1) by linarith
  moreover have "\<not> y + 1 \<le> z"
    using DayFromYear_mono [of "y + 1" z] z(1) assms(2) by linarith
  ultimately show ?thesis unfolding z_def by linarith
qed

lemma Day_of_days: "Day (d * msPerDay) = d" "TimeWithinDay (d * msPerDay) = 0"
  using msPerDay_pos by (simp_all add: Day_def TimeWithinDay_def)

lemma Day_minus_days: "(t - d * msPerDay) div msPerDay = Day t - d"
proof -
  have "(t + (- d) * msPerDay) div msPerDay = - d + t div msPerDay"
    using msPerDay_pos by (intro div_mult_self1) simp
  then show ?thesis by (simp add: Day_def)
qed

lemma MakeDay_jan1: "MakeDay y 0 1 = DayFromYear y"
  by (simp add: MakeDay_def monthStart_def)

lemma Math_ceil_quot_real: "Math_ceil_quot (Num a) 7 = Num \<lceil>real_of_int a / 7\<rceil>"
  using ceiling_divide_eq_div [where ?'a = real, of a 7] by simp

lemma getters_Num:
  "getDay (fixed_offset tza) (Num t) = Num (WeekDay (t + tza))"
  "getDate (fixed_offset tza) (Num t) = Num (DateFromTime (t + tza))"
  "getMonth (fixed_offset tza) (Num t) = Num (MonthFromTime (t + tza))"
  "getFullYear (fixed_offset tza) (Num t) = Num (YearFromTime (t + tza))"
  by (simp_all add: getDay_def getDate_def getMonth_def getFullYear_def LocalTime_fixed)

section \<open>getNextFriday\<close>

text \<open>The call returns the reference it was given and stores the moved date under it.\<close>

lemma getNextFriday_result:
  assumes "date < length h"
  shows "getNextFriday (fixed_offset tza) date h =
           Inr (date, (h @ [h ! date])[date :=
             (case h ! date of NaN \<Rightarrow> NaN
              | Num t \<Rightarrow> TimeClip (t + (if 5 \<le> WeekDay t then 5 - WeekDay t + 7
                                        else 5 - WeekDay t) * msPerDay))])"
proof (cases "h ! date")
  case NaN
  then show ?thesis using assms
    by (simp add: getNextFriday_def element_def new_Date_def nth_append getUTCDay_def
        getDate_def js_ge_def)
next
  case (Num t)
  have "setDate (fixed_offset tza) (Num t) (js_add (getDate (fixed_offset tza) (Num t)) (Num k)) = TimeClip (t + k * msPerDay)"
    for k
    by (rule setDate_advance)
  then show ?thesis using assms Num
    by (simp add: getNextFriday_def element_def new_Date_def nth_append getUTCDay_def js_ge_def
        getDate_def LocalTime_fixed)
qed

lemma next_friday_arith:
  fixes w :: int
  assumes "0 \<le> w" "w < 7"
  defines "a \<equiv> (if 5 \<le> w then 5 - w + 7 else 5 - w)"
  shows "0 < a" "a \<le> 7" "(w + a) mod 7 = 5" "\<forall>k. 0 < k \<and> k < a \<longrightarrow> (w + k) mod 7 \<noteq> 5"
    "w = 5 \<longrightarrow> a = 7"
  using assms by (auto simp: a_def) presburger+

text \<open>
  In a zone with one fixed offset, and for a valid date whose next seven days are
  representable time values, getNextFriday leaves in the returned object the input moved
  forward by \<open>addedDays = 5 - currentDay\<close> days, plus 7 when \<open>currentDay \<ge> 5\<close>,
  where \<open>currentDay\<close> is the UTC weekday of the input. That is between 1 and 7 days,
  the result is a Friday, no day strictly between the input and the result is a Friday,
  and a Friday is moved by exactly 7 days.
\<close>

lemma getNextFriday_fixed_offset:
  assumes "date < length h" and "h ! date = Num t"
    and "- maxTime \<le> t" and "t + 7 * msPerDay \<le> maxTime"
  shows "\<exists>h'. getNextFriday (fixed_offset tza) date h = Inr (date, h') \<and>
           (let currentDay = WeekDay t;
                addedDays = (if 5 \<le> currentDay then 5 - currentDay + 7 else 5 - currentDay)
            in h' ! date = Num (t + addedDays * msPerDay) \<and>
               0 < addedDays \<and> addedDays \<le> 7 \<and>
               WeekDay (t + addedDays * msPerDay) = 5 \<and>
               (\<forall>k. 0 < k \<and> k < addedDays \<longrightarrow> WeekDay (t + k * msPerDay) \<noteq> 5) \<and>
               (currentDay = 5 \<longrightarrow> addedDays = 7))"
proof -
  define a where "a = (if 5 \<le> WeekDay t then 5 - WeekDay t + 7 else 5 - WeekDay t)"
  have w: "0 \<le> WeekDay t" "WeekDay t < 7" using WeekDay_range [of t] by simp_all
  note ar = next_friday_arith [OF w, folded a_def]
  have "a * msPerDay \<le> 7 * msPerDay" "0 \<le> a * msPerDay"
    using ar(1,2) msPerDay_pos by simp_all
  then have clip: "TimeClip (t + a * msPerDay) = Num (t + a * msPerDay)"
    using assms(3,4) by (simp add: TimeClip_def)
  have "getNextFriday (fixed_offset tza) date h = Inr (date, (h @ [h ! date])[date := Num (t + a * msPerDay)])"
    using getNextFriday_result [OF assms(1), of tza] assms(2) clip by (simp add: a_def)
  moreover have "((h @ [h ! date])[date := Num (t + a * msPerDay)]) ! date = Num (t + a * msPerDay)"
    using assms(1) by simp
  ultimately show ?thesis
    using ar by (simp add: Let_def a_def [symmetric] WeekDay_advance)
qed

text \<open>
  Claim C4. The weekday is taken in UTC (\<^verbatim>\<open>getUTCDay\<close>) and the date is moved in the
  local calendar (\<^verbatim>\<open>getDate\<close>, \<^verbatim>\<open>setDate\<close>), so across a daylight-saving change
  the result is not the input advanced by whole days and need not be a Friday. In New
  York, for 2024-03-09T00:30Z (a Saturday in UTC, so six days are added) the call leaves
  2024-03-14T23:30Z in the object: one hour short of six days, and a Thursday both in
  UTC and in local time.
\<close>

theorem getNextFriday_across_dst:
  "getNextFriday New_York_2024 0 [Num 1709944200000] =
     Inr (0, [Num 1710459000000, Num 1709944200000]) \<and>
   getUTCDay (Num 1709944200000) = Num 6 \<and>
   getUTCDay (Num 1710459000000) = Num 4 \<and>
   getDay New_York_2024 (Num 1710459000000) = Num 4 \<and>
   1710459000000 = 1709944200000 + 6 * msPerDay - 3600000"
proof -
  have z: "LocalTime New_York_2024 1709944200000 = 1709926200000"
    "LocalTime New_York_2024 1710459000000 = 1710444600000"
    "UTC New_York_2024 1710444600000 = 1710459000000"
    by (simp_all add: LocalTime_def UTC_def New_York_2024_def)
  have c: "YearFromTime 1709926200000 = 2024" "MonthFromTime 1709926200000 = 2"
    "DateFromTime 1709926200000 = 8" "MakeDay 2024 2 14 = 19796"
    by code_simp+
  have w: "WeekDay 1709944200000 = 6" "WeekDay 1710459000000 = 4" "WeekDay 1710444600000 = 4"
    "TimeWithinDay 1709926200000 = 70200000"
    by (simp_all add: WeekDay_def Day_def TimeWithinDay_def msPerDay_def)
  have sd: "setDate New_York_2024 (Num 1709944200000) (Num 14) = Num 1710459000000"
    by (simp add: z c w MakeDate_def msPerDay_def TimeClip_def maxTime_def)
  have "getNextFriday New_York_2024 0 [Num 1709944200000] =
     Inr (0, [Num 1710459000000, Num 1709944200000])"
    by (simp add: getNextFriday_def element_def new_Date_def getUTCDay_def js_ge_def getDate_def
        z c w sd del: setDate.simps)
  then show ?thesis
    by (simp add: getUTCDay_def getDay_def z w msPerDay_def)
qed

text \<open>
  Claim C5. getNextFriday mutates the caller's object: the value it returns is the
  reference it was passed, the object under that reference holds the advanced date after
  the call (no longer the time value it held, when that was a valid one), and every
  other object the caller had is unchanged.
\<close>

theorem getNextFriday_mutates_argument:
  assumes "date < length h"
  shows "\<exists>h'. getNextFriday (fixed_offset tza) date h = Inr (date, h') \<and>
           h' ! date =
             (case h ! date of NaN \<Rightarrow> NaN
              | Num t \<Rightarrow> TimeClip (t + (if 5 \<le> WeekDay t then 5 - WeekDay t + 7
                                        else 5 - WeekDay t) * msPerDay)) \<and>
           (\<forall>t. h ! date = Num t \<longrightarrow> h' ! date \<noteq> Num t) \<and>
           (\<forall>r < length h. r \<noteq> date \<longrightarrow> h' ! r = h ! r)"
proof -
  define v where "v = (case h ! date of NaN \<Rightarrow> NaN
            | Num t \<Rightarrow> TimeClip (t + (if 5 \<le> WeekDay t then 5 - WeekDay t + 7
                                      else 5 - WeekDay t) * msPerDay))"
  define h' where "h' = (h @ [h ! date])[date := v]"
  have res: "getNextFriday (fixed_offset tza) date h = Inr (date, h')"
    unfolding h'_def v_def by (rule getNextFriday_result [OF assms])
  have at: "h' ! date = v"
    using assms by (simp add: h'_def)
  have frame: "\<forall>r < length h. r \<noteq> date \<longrightarrow> h' ! r = h ! r"
    by (simp add: h'_def nth_append)
  have changed: "\<forall>t. h ! date = Num t \<longrightarrow> h' ! date \<noteq> Num t"
  proof (intro allI impI)
    fix t assume t: "h ! date = Num t"
    have w: "0 \<le> WeekDay t" "WeekDay t < 7" using WeekDay_range [of t] by simp_all
    define x where "x = (if 5 \<le> WeekDay t then 5 - WeekDay t + 7 else 5 - WeekDay t) * msPerDay"
    have "(if 5 \<le> WeekDay t then 5 - WeekDay t + 7 else 5 - WeekDay t) \<noteq> 0"
      using next_friday_arith(1) [OF w] by simp
    then have "x \<noteq> 0"
      unfolding x_def using msPerDay_pos by simp
    then have "TimeClip (t + x) \<noteq> Num t"
      by (rule TimeClip_moved)
    moreover have "v = TimeClip (t + x)"
      by (simp add: v_def t x_def)
    ultimately show "h' ! date \<noteq> Num t"
      by (simp add: at)
  qed
  from res at frame changed show ?thesis
    unfolding v_def [symmetric] by blast
qed

text \<open>
  With three objects in the store and the second one, Friday 2024-02-16, passed: it
  becomes Friday 2024-02-23 and the other two keep their values.
\<close>

theorem getNextFriday_mutates_argument_witness:
  "\<exists>h'. getNextFriday (fixed_offset 0) 1 [Num 0, Num 1708041600000, NaN] = Inr (1, h') \<and>
        h' ! 1 = Num 1708646400000 \<and> h' ! 0 = Num 0 \<and> h' ! 2 = NaN"
proof -
  let ?h = "[Num 0, Num 1708041600000, NaN]"
  have len: "(1::nat) < length ?h" by simp
  from getNextFriday_mutates_argument [OF len, of 0]
  obtain h' where r: "getNextFriday (fixed_offset 0) 1 ?h = Inr (1, h')"
    and v: "h' ! 1 = (case ?h ! 1 of NaN \<Rightarrow> NaN
              | Num t \<Rightarrow> TimeClip (t + (if 5 \<le> WeekDay t then 5 - WeekDay t + 7
                                        else 5 - WeekDay t) * msPerDay))"
    and f: "\<forall>r < length ?h. r \<noteq> 1 \<longrightarrow> h' ! r = ?h ! r"
    by blast
  from v have "h' ! 1 = Num 1708646400000"
    by (simp add: msPerDay_def maxTime_def WeekDay_def Day_def TimeClip_def)
  moreover from f have "h' ! 0 = ?h ! 0" by simp
  moreover from f have "h' ! 2 = ?h ! 2" by simp
  ultimately show ?thesis using r by simp
qed

section \<open>formatDate\<close>

lemma digits_small: "n < 10 \<Longrightarrow> digits n = [digit_char n]"
  by (subst digits.simps) simp

lemma digits_large: "\<not> n < 10 \<Longrightarrow> digits n = digits (n div 10) @ [digit_char n]"
  by (subst digits.simps) simp

lemma digits_not_empty: "digits n \<noteq> []"
  by (cases "n < 10") (simp_all add: digits_small digits_large)

lemma length_digits_less_2: "length (digits n) < 2 \<longleftrightarrow> n < 10"
proof (cases "n < 10")
  case True
  then show ?thesis by (simp add: digits_small)
next
  case False
  have "0 < length (digits (n div 10))" using digits_not_empty [of "n div 10"] by simp
  then show ?thesis using False by (simp add: digits_large)
qed

lemma length_digits_2: "10 \<le> n \<Longrightarrow> n < 100 \<Longrightarrow> length (digits n) = 2"
  by (simp add: digits_large digits_small)

lemma digit_char_nonzero: "0 < n \<Longrightarrow> n < 10 \<Longrightarrow> digit_char n \<noteq> CHR ''0''"
proof -
  assume "0 < n" "n < 10"
  then have "n \<in> {1, 2, 3, 4, 5, 6, 7, 8, 9}" by auto
  then show ?thesis by (auto simp add: digit_char_def)
qed

lemma digits_no_leading_zero: "0 < n \<Longrightarrow> hd (digits n) \<noteq> CHR ''0''"
proof (induction n rule: digits.induct)
  case (1 n)
  show ?case
  proof (cases "n < 10")
    case True
    then show ?thesis using "1.prems" by (simp add: digits_small digit_char_nonzero)
  next
    case False
    then have "0 < n div 10" by simp
    then have "hd (digits (n div 10)) \<noteq> CHR ''0''" using "1.IH" False by simp
    then show ?thesis using False digits_not_empty [of "n div 10"] by (simp add: digits_large)
  qed
qed

lemma ToString_nonneg: "0 \<le> i \<Longrightarrow> ToString (Num i) = digits (nat i)"
  by simp

lemma time_ranges:
  "0 \<le> HourFromTime t" "HourFromTime t < 24" "0 \<le> MinFromTime t" "MinFromTime t < 60"
  "0 \<le> SecFromTime t" "SecFromTime t < 60"
  by (simp_all add: HourFromTime_def MinFromTime_def SecFromTime_def)

lemma pad_two_digits:
  assumes "0 \<le> m"
  shows "(if length (ToString (Num m)) < 2 then CHR ''0'' # ToString (Num m) else ToString (Num m))
         = (if m < 10 then CHR ''0'' # digits (nat m) else digits (nat m))"
proof -
  have "nat m < 10 \<longleftrightarrow> m < 10" using assms by linarith
  then show ?thesis using assms by (simp add: length_digits_less_2)
qed

lemma formatDate_valid:
  assumes "Date_parse date = Num t"
  shows "formatDate date =
           digits (nat (MonthFromTime t + 1)) @ ''/'' @ digits (nat (DateFromTime t)) @ ''/'' @
           ToString (Num (YearFromTime t)) @ '', '' @
           digits (nat (if 12 < HourFromTime t then HourFromTime t - 12 else HourFromTime t)) @
           '':'' @ (if MinFromTime t < 10 then CHR ''0'' # digits (nat (MinFromTime t))
                    else digits (nat (MinFromTime t))) @
           '':'' @ (if SecFromTime t < 10 then CHR ''0'' # digits (nat (SecFromTime t))
                    else digits (nat (SecFromTime t))) @
           (if HourFromTime t < 12 then '' AM'' else '' PM'')"
proof -
  have m: "0 \<le> MonthFromTime t + 1" using MonthFromTime_range [of t] by simp
  have d: "0 \<le> DateFromTime t" using DateFromTime_range [of t] by simp
  note r = time_ranges [of t]
  have mm: "(if length (ToString (Num (MinFromTime t))) < 2 then CHR ''0'' # ToString (Num (MinFromTime t)) else ToString (Num (MinFromTime t)))
         = (if MinFromTime t < 10 then CHR ''0'' # digits (nat (MinFromTime t)) else digits (nat (MinFromTime t)))"
    by (rule pad_two_digits [OF r(3)])
  have ss: "(if length (ToString (Num (SecFromTime t))) < 2 then CHR ''0'' # ToString (Num (SecFromTime t)) else ToString (Num (SecFromTime t)))
         = (if SecFromTime t < 10 then CHR ''0'' # digits (nat (SecFromTime t)) else digits (nat (SecFromTime t)))"
    by (rule pad_two_digits [OF r(5)])
  have "formatDate date =
      ToString (Num (MonthFromTime t + 1)) @ ''/'' @ ToString (Num (DateFromTime t)) @ ''/'' @
      ToString (Num (YearFromTime t)) @ '', '' @
      (if 12 < HourFromTime t then ToString (Num (HourFromTime t - 12)) else ToString (Num (HourFromTime t))) @
       '':'' @ (if MinFromTime t < 10 then CHR ''0'' # digits (nat (MinFromTime t))
                    else digits (nat (MinFromTime t))) @
           '':'' @ (if SecFromTime t < 10 then CHR ''0'' # digits (nat (SecFromTime t))
                    else digits (nat (SecFromTime t))) @
           (if HourFromTime t < 12 then '' AM'' else '' PM'')"
    unfolding formatDate_def Let_def assms getUTCMonth_def getUTCDate_def getUTCFullYear_def
      getUTCHours_def getUTCMinutes_def getUTCSeconds_def lift_time.simps mm ss js_gt_def
    by (simp del: ToString.simps)
  also have "ToString (Num (MonthFromTime t + 1)) = digits (nat (MonthFromTime t + 1))"
    by (rule ToString_nonneg [OF m])
  also have "ToString (Num (DateFromTime t)) = digits (nat (DateFromTime t))"
    by (rule ToString_nonneg [OF d])
  also have "(if 12 < HourFromTime t then ToString (Num (HourFromTime t - 12)) else ToString (Num (HourFromTime t)))
     = digits (nat (if 12 < HourFromTime t then HourFromTime t - 12 else HourFromTime t))"
    using r(1) by simp
  finally show ?thesis .
qed


text \<open>
  Claim C8. For an input that parses to a valid date, formatDate is
  \<^verbatim>\<open>M/D/YYYY, h:mm:ss AM\<close> or \<^verbatim>\<open>PM\<close> of the UTC components: month, day and hour are
  plain decimals, none with a leading zero; minutes and seconds have two digits; the hour
  is on a 12-hour clock, with AM below 12; and hour 0 is not special-cased, it is
  rendered \<^verbatim>\<open>0:mm:ss AM\<close>.
\<close>

theorem formatDate_layout:
  assumes "Date_parse date = Num t"
  shows "(let h = HourFromTime t;
              mm = (if MinFromTime t < 10 then CHR ''0'' # digits (nat (MinFromTime t))
                    else digits (nat (MinFromTime t)));
              ss = (if SecFromTime t < 10 then CHR ''0'' # digits (nat (SecFromTime t))
                    else digits (nat (SecFromTime t)));
              M = digits (nat (MonthFromTime t + 1));
              D = digits (nat (DateFromTime t));
              YYYY = ToString (Num (YearFromTime t))
          in formatDate date =
               M @ ''/'' @ D @ ''/'' @ YYYY @ '', '' @
               digits (nat (if 12 < h then h - 12 else h)) @ '':'' @ mm @ '':'' @ ss @
               (if h < 12 then '' AM'' else '' PM'') \<and>
             length mm = 2 \<and> length ss = 2 \<and>
             hd M \<noteq> CHR ''0'' \<and> hd D \<noteq> CHR ''0'' \<and>
             (h \<noteq> 0 \<longrightarrow> hd (digits (nat (if 12 < h then h - 12 else h))) \<noteq> CHR ''0'') \<and>
             (h = 0 \<longrightarrow>
                formatDate date =
                  M @ ''/'' @ D @ ''/'' @ YYYY @ '', '' @ ''0:'' @ mm @ '':'' @ ss @ '' AM''))"
proof -
  note r = time_ranges [of t]
  have mm: "length (if MinFromTime t < 10 then CHR ''0'' # digits (nat (MinFromTime t))
                    else digits (nat (MinFromTime t))) = 2"
    using r(3,4) by (simp add: digits_small length_digits_2)
  have ss: "length (if SecFromTime t < 10 then CHR ''0'' # digits (nat (SecFromTime t))
                    else digits (nat (SecFromTime t))) = 2"
    using r(5,6) by (simp add: digits_small length_digits_2)
  have M: "hd (digits (nat (MonthFromTime t + 1))) \<noteq> CHR ''0''"
    using MonthFromTime_range [of t] by (intro digits_no_leading_zero) simp
  have D: "hd (digits (nat (DateFromTime t))) \<noteq> CHR ''0''"
    using DateFromTime_range [of t] by (intro digits_no_leading_zero) simp
  have h: "hd (digits (nat (if 12 < HourFromTime t then HourFromTime t - 12 else HourFromTime t)))
             \<noteq> CHR ''0''" if "HourFromTime t \<noteq> 0"
    using that r(1) by (intro digits_no_leading_zero) simp
  have z: "digits (nat 0) = ''0''"
    by (simp add: digits_small digit_char_def)
  show ?thesis
    unfolding Let_def
    using formatDate_valid [OF assms] mm ss M D h z by simp
qed

text \<open>Five minutes and nine seconds past midnight UTC.\<close>

theorem formatDate_layout_witness:
  "formatDate ''2024-02-01T00:05:09.000Z'' = ''2/1/2024, 0:05:09 AM''"
proof -
  have p: "Date_parse ''2024-02-01T00:05:09.000Z'' = Num 1706745909000"
    by code_simp
  have e: "HourFromTime 1706745909000 = 0" "MinFromTime 1706745909000 = 5"
    "SecFromTime 1706745909000 = 9" "MonthFromTime 1706745909000 = 1"
    "DateFromTime 1706745909000 = 1" "YearFromTime 1706745909000 = 2024"
    by code_simp+
  have d: "digits 0 = ''0''" "digits (Suc 0) = ''1''" "digits 2 = ''2''" "digits 5 = ''5''"
    "digits 9 = ''9''" "digits 2024 = ''2024''"
    by code_simp+
  show ?thesis
    using formatDate_layout [OF p] by (simp add: e d Let_def)
qed

text \<open>
  Claim C10. For an input whose UTC hour is exactly 12 the time part is
  \<^verbatim>\<open>12:mm:ss PM\<close>, the hour taken as it is; for the hours from 13 on it is the hour
  minus 12, with PM.
\<close>

theorem formatDate_noon:
  assumes "Date_parse date = Num t"
  shows "(let h = HourFromTime t;
              mm = (if MinFromTime t < 10 then CHR ''0'' # digits (nat (MinFromTime t))
                    else digits (nat (MinFromTime t)));
              ss = (if SecFromTime t < 10 then CHR ''0'' # digits (nat (SecFromTime t))
                    else digits (nat (SecFromTime t)));
              datePart = digits (nat (MonthFromTime t + 1)) @ ''/'' @
                         digits (nat (DateFromTime t)) @ ''/'' @ ToString (Num (YearFromTime t))
          in (h = 12 \<longrightarrow>
                formatDate date = datePart @ '', '' @ ''12:'' @ mm @ '':'' @ ss @ '' PM'') \<and>
             (13 \<le> h \<longrightarrow>
                formatDate date =
                  datePart @ '', '' @ digits (nat (h - 12)) @ '':'' @ mm @ '':'' @ ss @ '' PM''))"
proof -
  have z: "digits (nat 12) = ''12''"
    by (simp add: digits_large digits_small digit_char_def)
  show ?thesis
    unfolding Let_def
    using formatDate_valid [OF assms] z by simp
qed

text \<open>Noon, and the documented example at 22:59.\<close>

theorem formatDate_noon_witness:
  "formatDate ''2010-12-15T12:05:09.000Z'' = ''12/15/2010, 12:05:09 PM'' \<and>
   formatDate ''2010-12-15T22:59:00.000Z'' = ''12/15/2010, 10:59:00 PM''"
proof -
  have p: "Date_parse ''2010-12-15T12:05:09.000Z'' = Num 1292414709000"
    "Date_parse ''2010-12-15T22:59:00.000Z'' = Num 1292453940000"
    by code_simp+
  have e: "HourFromTime 1292414709000 = 12" "MinFromTime 1292414709000 = 5"
    "SecFromTime 1292414709000 = 9" "MonthFromTime 1292414709000 = 11"
    "DateFromTime 1292414709000 = 15" "YearFromTime 1292414709000 = 2010"
    "HourFromTime 1292453940000 = 22" "MinFromTime 1292453940000 = 59"
    "SecFromTime 1292453940000 = 0" "MonthFromTime 1292453940000 = 11"
    "DateFromTime 1292453940000 = 15" "YearFromTime 1292453940000 = 2010"
    by code_simp+
  have d: "digits 0 = ''0''" "digits 5 = ''5''" "digits 9 = ''9''" "digits 10 = ''10''"
    "digits 12 = ''12''" "digits 15 = ''15''" "digits 59 = ''59''" "digits 2010 = ''2010''"
    by code_simp+
  show ?thesis
    using formatDate_noon [OF p(1)] formatDate_noon [OF p(2)] by (simp add: e d)
qed

section \<open>isDateInPeriod\<close>

text \<open>
  Claim C6. isDateInPeriod is true exactly when the three strings denote valid dates
  and the instant of the date lies between the instants of start and end, both bounds
  included; 2024-02-02 is in the period from 2024-02-02 to 2024-03-02 and 2024-02-01 is
  not.
\<close>

theorem isDateInPeriod_inclusive:
  "(isDateInPeriod date period \<longleftrightarrow>
      (\<exists>d s e. Date_parse date = Num d \<and> Date_parse (period_start period) = Num s \<and>
               Date_parse (period_end period) = Num e \<and> s \<le> d \<and> d \<le> e)) \<and>
   isDateInPeriod ''2024-02-02'' \<lparr>period_start = ''2024-02-02'', period_end = ''2024-03-02''\<rparr> \<and>
   \<not> isDateInPeriod ''2024-02-01'' \<lparr>period_start = ''2024-02-02'', period_end = ''2024-03-02''\<rparr>"
proof (intro conjI)
  show "isDateInPeriod date period \<longleftrightarrow>
      (\<exists>d s e. Date_parse date = Num d \<and> Date_parse (period_start period) = Num s \<and>
               Date_parse (period_end period) = Num e \<and> s \<le> d \<and> d \<le> e)"
    by (cases "Date_parse date"; cases "Date_parse (period_start period)";
        cases "Date_parse (period_end period)")
      (auto simp add: isDateInPeriod_def js_ge_def)
  show "isDateInPeriod ''2024-02-02'' \<lparr>period_start = ''2024-02-02'', period_end = ''2024-03-02''\<rparr>"
    by code_simp
  show "\<not> isDateInPeriod ''2024-02-01'' \<lparr>period_start = ''2024-02-02'', period_end = ''2024-03-02''\<rparr>"
    by code_simp
qed

text \<open>The upper bound is included, the day after it is not.\<close>

theorem isDateInPeriod_inclusive_witness:
  "isDateInPeriod ''2024-03-02'' \<lparr>period_start = ''2024-02-02'', period_end = ''2024-03-02''\<rparr> \<and>
   \<not> isDateInPeriod ''2024-03-03'' \<lparr>period_start = ''2024-02-02'', period_end = ''2024-03-02''\<rparr>"
proof -
  have p: "Date_parse ''2024-02-02'' = Num 1706832000000"
    "Date_parse ''2024-03-02'' = Num 1709337600000"
    "Date_parse ''2024-03-03'' = Num 1709424000000"
    by code_simp+
  show ?thesis
    using isDateInPeriod_inclusive [of "''2024-03-02''" "\<lparr>period_start = ''2024-02-02'', period_end = ''2024-03-02''\<rparr>"]
      isDateInPeriod_inclusive [of "''2024-03-03''" "\<lparr>period_start = ''2024-02-02'', period_end = ''2024-03-02''\<rparr>"]
    by (simp add: p)
qed

section \<open>getWeekNumberByDate\<close>

lemma getWeekNumberByDate_valid:
  assumes "\<not> (0 \<le> YearFromTime (LocalTime (fixed_offset tza) t) \<and> YearFromTime (LocalTime (fixed_offset tza) t) \<le> 99)"
    and "\<bar>DayFromYear (YearFromTime (LocalTime (fixed_offset tza) t)) * msPerDay - tza\<bar> \<le> maxTime"
  shows "getWeekNumberByDate (fixed_offset tza) (Num t) = Num (weekNumber_claimed (fixed_offset tza) t)"
proof -
  define y where "y = YearFromTime (LocalTime (fixed_offset tza) t)"
  define j where "j = DayFromYear y * msPerDay"
  have ny: "(if 0 \<le> y \<and> y \<le> 99 then 1900 + y else y) = y"
    using assms(1) by (auto simp add: y_def)
  have s: "Date_of_components (fixed_offset tza) (Num y) (Num 0) (Num 1) = Num (j - tza)"
    using assms(2) by (simp add: ny y_def [symmetric] j_def MakeDay_jan1 MakeDate_def MakeTime_def
        UTC_fixed TimeClip_def)
  have w: "getDay (fixed_offset tza) (Num (j - tza)) = Num (WeekDay j)"
    by (simp add: getDay_def LocalTime_fixed)
  have m: "24 * 60 * 60 * 1000 = msPerDay" by (simp add: msPerDay_def)
  have d: "(t - (j - tza)) div msPerDay = Day (LocalTime (fixed_offset tza) t) - Day j"
  proof -
    have "t - (j - tza) = LocalTime (fixed_offset tza) t - DayFromYear y * msPerDay"
      by (simp add: j_def LocalTime_fixed)
    then show ?thesis
      by (simp only: Day_minus_days j_def Day_of_days)
  qed
  have o: "(if Num (WeekDay j) = Num 0 then Num 7 else Num (WeekDay j))
             = Num (if WeekDay j = 0 then 7 else WeekDay j)"
    by simp
  show ?thesis
    unfolding getWeekNumberByDate_def weekNumber_claimed_def Let_def getFullYear_def
      lift_time.simps y_def [symmetric] j_def [symmetric] s w m o
    by (simp only: js_sub.simps Math_floor_quot.simps d js_add.simps Math_ceil_quot_real)
qed

text \<open>A date built from components in a year outside 0 to 99 is local midnight of that day.\<close>

lemma Date_of_components_local:
  assumes "\<bar>tza\<bar> \<le> msPerDay" and "\<not> (0 \<le> y \<and> y \<le> 99)"
    and "\<bar>MakeDay y m d\<bar> < 99999999"
  shows "Date_of_components (fixed_offset tza) (Num y) (Num m) (Num d) = Num (MakeDay y m d * msPerDay - tza)"
proof -
  have "\<bar>MakeDay y m d * msPerDay\<bar> \<le> 99999998 * msPerDay"
    using assms(3) msPerDay_pos by (simp add: abs_mult)
  then have "\<bar>MakeDay y m d * msPerDay - tza\<bar> \<le> maxTime"
    using assms(1) by (simp add: msPerDay_def maxTime_def)
  then show ?thesis using assms(2)
    by (auto simp add: MakeDate_def MakeTime_def UTC_fixed TimeClip_def)
qed

text \<open>
  In a zone with one fixed offset, for every valid date whose local year is not one of 0
  to 99, and January 1 of that year being a representable date, getWeekNumberByDate is
  the stated rounded-up quotient; and whatever the offset (up to a day either way), it is
  1 for January 3, 5 for January 31 and 8 for February 23 of 2024.
\<close>

lemma getWeekNumberByDate_fixed_offset:
  "(\<not> (0 \<le> YearFromTime (LocalTime (fixed_offset tza) t) \<and> YearFromTime (LocalTime (fixed_offset tza) t) \<le> 99) \<and>
    \<bar>DayFromYear (YearFromTime (LocalTime (fixed_offset tza) t)) * msPerDay - tza\<bar> \<le> maxTime \<longrightarrow>
      getWeekNumberByDate (fixed_offset tza) (Num t) = Num (weekNumber_claimed (fixed_offset tza) t)) \<and>
   (\<bar>tza\<bar> \<le> msPerDay \<longrightarrow>
      getWeekNumberByDate (fixed_offset tza) (Date_of_components (fixed_offset tza) (Num 2024) (Num 0) (Num 3)) = Num 1 \<and>
      getWeekNumberByDate (fixed_offset tza) (Date_of_components (fixed_offset tza) (Num 2024) (Num 0) (Num 31)) = Num 5 \<and>
      getWeekNumberByDate (fixed_offset tza) (Date_of_components (fixed_offset tza) (Num 2024) (Num 1) (Num 23)) = Num 8)"
proof (intro conjI impI)
  assume "\<not> (0 \<le> YearFromTime (LocalTime (fixed_offset tza) t) \<and> YearFromTime (LocalTime (fixed_offset tza) t) \<le> 99) \<and>
    \<bar>DayFromYear (YearFromTime (LocalTime (fixed_offset tza) t)) * msPerDay - tza\<bar> \<le> maxTime"
  then show "getWeekNumberByDate (fixed_offset tza) (Num t) = Num (weekNumber_claimed (fixed_offset tza) t)"
    using getWeekNumberByDate_valid [of tza t] by blast
next
  assume z: "\<bar>tza\<bar> \<le> msPerDay"
  have week: "getWeekNumberByDate (fixed_offset tza) (Date_of_components (fixed_offset tza) (Num 2024) (Num m) (Num d)) = Num w"
    if "MakeDay 2024 m d = n" and "\<bar>n\<bar> < 99999999" and "YearFromTime (n * msPerDay) = 2024"
      and "\<lceil>real_of_int (n - 19723 + 1) / 7\<rceil> = w" for m d n w
  proof -
    have c: "Date_of_components (fixed_offset tza) (Num 2024) (Num m) (Num d) = Num (n * msPerDay - tza)"
      using Date_of_components_local [of tza 2024 m d] z that(1,2) by simp
    have l: "LocalTime (fixed_offset tza) (n * msPerDay - tza) = n * msPerDay"
      by (simp add: LocalTime_fixed)
    have j: "DayFromYear 2024 = 19723" by (simp add: DayFromYear_def)
    have wd: "WeekDay (19723 * msPerDay) = 1"
      by (simp add: WeekDay_def Day_of_days)
    have r: "\<bar>19723 * msPerDay - tza\<bar> \<le> maxTime"
      using z by (simp add: msPerDay_def maxTime_def)
    have "getWeekNumberByDate (fixed_offset tza) (Num (n * msPerDay - tza))
            = Num (weekNumber_claimed (fixed_offset tza) (n * msPerDay - tza))"
      using getWeekNumberByDate_valid [of tza "n * msPerDay - tza"] r
      by (simp add: l that(3) j)
    also have "weekNumber_claimed (fixed_offset tza) (n * msPerDay - tza) = w"
      unfolding weekNumber_claimed_def Let_def l that(3) j wd Day_of_days
      using that(4) by simp
    finally show ?thesis by (simp only: c)
  qed
  show "getWeekNumberByDate (fixed_offset tza) (Date_of_components (fixed_offset tza) (Num 2024) (Num 0) (Num 3)) = Num 1"
    by (rule week [of 0 3 19725]) (code_simp, simp, code_simp, simp)
  show "getWeekNumberByDate (fixed_offset tza) (Date_of_components (fixed_offset tza) (Num 2024) (Num 0) (Num 31)) = Num 5"
    by (rule week [of 0 31 19753]) (code_simp, simp, code_simp, simp)
  show "getWeekNumberByDate (fixed_offset tza) (Date_of_components (fixed_offset tza) (Num 2024) (Num 1) (Num 23)) = Num 8"
    by (rule week [of 1 23 19776]) (code_simp, simp, code_simp, simp)
qed

text \<open>
  Claim C7. The function does not return the stated week number for every date. It
  builds January 1 with \<^verbatim>\<open>new Date(year, 0, 1)\<close>, which for the year 50 is January 1 of
  1950: for June 1 of the year 50 (UTC) the stated week number is 23 and the function
  returns -99114. And it counts the days elapsed as the difference of the two time
  values divided by the length of a day, which is an hour short of a whole number of
  days when daylight saving began in between: for \<^verbatim>\<open>new Date(2024, 5, 3)\<close> in New York,
  a Monday, the stated week number is 23 and the function returns 22.
\<close>

theorem getWeekNumberByDate_wrong_weeks:
  "getWeekNumberByDate (fixed_offset 0) (Num (- 60576249600000)) = Num (- 99114) \<and>
   getFullYear (fixed_offset 0) (Num (- 60576249600000)) = Num 50 \<and>
   weekNumber_claimed (fixed_offset 0) (- 60576249600000) = 23 \<and>
   getWeekNumberByDate New_York_2024 (Num 1717387200000) = Num 22 \<and>
   Date_of_components New_York_2024 (Num 2024) (Num 5) (Num 3) = Num 1717387200000 \<and>
   weekNumber_claimed New_York_2024 1717387200000 = 23"
proof -
  have y: "YearFromTime (- 60576249600000) = 50" "DayFromYear 50 = - 701265"
    "DayFromYear 1950 = - 7305"
    by code_simp+
  have w: "weekNumber_claimed (fixed_offset 0) (- 60576249600000) = 23"
    by (simp add: weekNumber_claimed_def LocalTime_fixed y WeekDay_def Day_def msPerDay_def)
  have s: "Date_of_components (fixed_offset 0) (Num 50) (Num 0) (Num 1) = Num (- 631152000000)"
    by (simp add: MakeDay_def y monthStart_def MakeDate_def MakeTime_def UTC_fixed TimeClip_def
        msPerDay_def maxTime_def)
  have g: "getWeekNumberByDate (fixed_offset 0) (Num (- 60576249600000)) = Num (- 99114)"
    unfolding getWeekNumberByDate_def Let_def getFullYear_def lift_time.simps LocalTime_fixed
    by (simp add: y s getDay_def LocalTime_fixed WeekDay_def Day_def msPerDay_def
        del: Date_of_components.simps)
  have z: "LocalTime New_York_2024 1717387200000 = 1717372800000"
    "LocalTime New_York_2024 1704085200000 = 1704067200000"
    "UTC New_York_2024 1704067200000 = 1704085200000"
    "UTC New_York_2024 1717372800000 = 1717387200000"
    by (simp_all add: LocalTime_def UTC_def New_York_2024_def)
  have n: "YearFromTime 1717372800000 = 2024" "DayFromYear 2024 = 19723"
    "MakeDay 2024 0 1 = 19723" "MakeDay 2024 5 3 = 19877"
    by code_simp+
  have j: "Date_of_components New_York_2024 (Num 2024) (Num 0) (Num 1) = Num 1704085200000"
    "Date_of_components New_York_2024 (Num 2024) (Num 5) (Num 3) = Num 1717387200000"
    by (simp_all add: n MakeDate_def MakeTime_def msPerDay_def z TimeClip_def maxTime_def)
  have k: "getWeekNumberByDate New_York_2024 (Num 1717387200000) = Num 22"
    unfolding getWeekNumberByDate_def Let_def getFullYear_def lift_time.simps z n j
    by (simp add: getDay_def z WeekDay_def Day_def msPerDay_def)
  have c: "weekNumber_claimed New_York_2024 1717387200000 = 23"
    by (simp add: weekNumber_claimed_def z n WeekDay_def Day_def msPerDay_def)
  show ?thesis using y w g j k c by (simp add: getFullYear_def LocalTime_fixed)
qed

section \<open>getNextFridayThe13th\<close>

lemma friday13_loop_hit:
  assumes "getDay (fixed_offset tza) (Date_of_components (fixed_offset tza) year month givenDay) = Num 5"
    and "getDate (fixed_offset tza) (Date_of_components (fixed_offset tza) year month givenDay) = Num 13"
  shows "friday13_loop (fixed_offset tza) year month givenDay = Some (Date_of_components (fixed_offset tza) year month givenDay)"
  by (subst friday13_loop.simps) (simp add: assms)

lemma friday13_loop_miss:
  assumes "\<not> (getDay (fixed_offset tza) (Date_of_components (fixed_offset tza) year month givenDay) = Num 5 \<and>
              getDate (fixed_offset tza) (Date_of_components (fixed_offset tza) year month givenDay) = Num 13)"
  shows "friday13_loop (fixed_offset tza) year month givenDay =
           friday13_loop (fixed_offset tza) year month (js_add givenDay (Num 1))"
  by (subst friday13_loop.simps) (simp add: assms Let_def)

text \<open>
  Claim C1. The scan starts at the day of the month whose number is the input's weekday
  (\<^verbatim>\<open>getDay\<close>), not at the input's own day of the month. For Saturday, September 14, 2024
  (weekday 6, UTC) it starts at September 6 and returns Friday, September 13, 2024, the
  day before the input.
\<close>

theorem getNextFridayThe13th_before_input:
  "getNextFridayThe13th (fixed_offset 0) (Num 1726272000000) = Some (Num 1726185600000) \<and>
   Date_of_components (fixed_offset 0) (Num 2024) (Num 8) (Num 14) = Num 1726272000000 \<and>
   Date_of_components (fixed_offset 0) (Num 2024) (Num 8) (Num 13) = Num 1726185600000 \<and>
   getDay (fixed_offset 0) (Num 1726272000000) = Num 6 \<and> getDay (fixed_offset 0) (Num 1726185600000) = Num 5 \<and>
   js_lt (Num 1726185600000) (Num 1726272000000)"
proof -
  have s: "DayFromYear 2024 = 19723" "DaysInYear 2024 = 366" "monthStart 8 1 = 244"
    by (simp_all add: DayFromYear_def DaysInYear_def monthStart_def)
  have c: "Date_of_components (fixed_offset 0) (Num 2024) (Num 8) (Num g) = Num ((19966 + g) * 86400000)"
    if "0 \<le> g" "g \<le> 31" for g
    using that by (simp add: MakeDay_def s MakeDate_def MakeTime_def UTC_fixed TimeClip_def
        msPerDay_def maxTime_def)
  have c13: "Date_of_components (fixed_offset 0) (Num 2024) (Num 8) (Num 13) = Num 1726185600000"
    using c [of 13] by (simp del: Date_of_components.simps)
  have c14: "Date_of_components (fixed_offset 0) (Num 2024) (Num 8) (Num 14) = Num 1726272000000"
    using c [of 14] by (simp del: Date_of_components.simps)
  have d: "DateFromTime 1725580800000 = 6" "DateFromTime 1725667200000 = 7"
    "DateFromTime 1725753600000 = 8" "DateFromTime 1725840000000 = 9"
    "DateFromTime 1725926400000 = 10" "DateFromTime 1726012800000 = 11"
    "DateFromTime 1726099200000 = 12" "DateFromTime 1726185600000 = 13"
    by code_simp+
  have w: "WeekDay 1726185600000 = 5" "WeekDay 1726272000000 = 6"
    by (simp_all add: WeekDay_def Day_def msPerDay_def)
  have i: "YearFromTime 1726272000000 = 2024" "MonthFromTime 1726272000000 = 8"
    by code_simp+
  have miss: "friday13_loop (fixed_offset 0) (Num 2024) (Num 8) (Num g) = friday13_loop (fixed_offset 0) (Num 2024) (Num 8) (Num g')"
    if "0 \<le> g" "g \<le> 31" "DateFromTime ((19966 + g) * 86400000) \<noteq> 13" "g' = g + 1" for g g'
    using friday13_loop_miss [of 0 "Num 2024" "Num 8" "Num g"] that
    by (simp only: c [OF that(1,2)] getters_Num js_add.simps) simp
  have "friday13_loop (fixed_offset 0) (Num 2024) (Num 8) (Num 6) = friday13_loop (fixed_offset 0) (Num 2024) (Num 8) (Num 7)"
    by (rule miss) (simp_all add: d)
  also have "\<dots> = friday13_loop (fixed_offset 0) (Num 2024) (Num 8) (Num 8)"
    by (rule miss) (simp_all add: d)
  also have "\<dots> = friday13_loop (fixed_offset 0) (Num 2024) (Num 8) (Num 9)"
    by (rule miss) (simp_all add: d)
  also have "\<dots> = friday13_loop (fixed_offset 0) (Num 2024) (Num 8) (Num 10)"
    by (rule miss) (simp_all add: d)
  also have "\<dots> = friday13_loop (fixed_offset 0) (Num 2024) (Num 8) (Num 11)"
    by (rule miss) (simp_all add: d)
  also have "\<dots> = friday13_loop (fixed_offset 0) (Num 2024) (Num 8) (Num 12)"
    by (rule miss) (simp_all add: d)
  also have "\<dots> = friday13_loop (fixed_offset 0) (Num 2024) (Num 8) (Num 13)"
    by (rule miss) (simp_all add: d)
  also have "\<dots> = Some (Date_of_components (fixed_offset 0) (Num 2024) (Num 8) (Num 13))"
    by (rule friday13_loop_hit) (simp_all only: c13 getters_Num, simp_all add: d w)
  finally have "friday13_loop (fixed_offset 0) (Num 2024) (Num 8) (Num 6) = Some (Num 1726185600000)"
    by (simp only: c13)
  then have "getNextFridayThe13th (fixed_offset 0) (Num 1726272000000) = Some (Num 1726185600000)"
    by (simp only: getNextFridayThe13th_def Let_def getters_Num) (simp add: i w)
  then show ?thesis
    using c13 c14 w by (simp only: getters_Num) simp
qed


section \<open>getWorkSchedule\<close>

lemma TimeClip_in_range: "- maxTime \<le> t \<Longrightarrow> t \<le> maxTime \<Longrightarrow> TimeClip t = Num t"
  by (simp add: TimeClip_def)

lemma TimeClip_beyond: "e < t \<Longrightarrow> \<not> js_le (TimeClip t) (Num e)"
  by (simp add: TimeClip_def)

lemma work_days_stop:
  "\<not> (i < w \<and> js_le cur endDate) \<Longrightarrow> work_days (fixed_offset tza) endDate w i cur acc = (cur, acc)"
  by (subst work_days.simps) auto

lemma work_days_step:
  "i < w \<Longrightarrow> c \<le> e \<Longrightarrow>
   work_days (fixed_offset tza) (Num e) w i (Num c) acc =
     work_days (fixed_offset tza) (Num e) w (i + 1) (TimeClip (c + msPerDay))
       (acc @ [formatScheduleDate (fixed_offset tza) (Num c)])"
  using setDate_advance [of tza c 1] by (subst work_days.simps) simp

lemma days_left_step:
  assumes "c + msPerDay \<le> e"
  shows "nat ((e - c) div msPerDay + 1) = Suc (nat ((e - (c + msPerDay)) div msPerDay + 1))"
proof -
  have "(e - c - msPerDay) div msPerDay = (e - c) div msPerDay - 1"
    using msPerDay_pos div_mult_self1 [of msPerDay "e - c" "- 1"] by simp
  moreover have "0 \<le> (e - c - msPerDay) div msPerDay"
    using assms msPerDay_pos by (simp add: pos_imp_zdiv_nonneg_iff)
  ultimately show ?thesis by (simp add: algebra_simps)
qed

lemma days_left_last:
  assumes "c \<le> e" "e < c + msPerDay"
  shows "(e - c) div msPerDay = 0"
  using assms by simp

text \<open>
  One run of the inner loop from a date inside the period: it emits \<open>n\<close> consecutive
  days, as many as the counter and the end of the period allow, and leaves the current
  date \<open>n\<close> days on.
\<close>

lemma work_days_run:
  assumes "- maxTime \<le> c" and "c \<le> e" and "e \<le> maxTime" and "i \<le> w"
  defines "n \<equiv> min (nat (w - i)) (nat ((e - c) div msPerDay + 1))"
  shows "work_days (fixed_offset tza) (Num e) w i (Num c) acc =
           (TimeClip (c + int n * msPerDay),
            acc @ map (\<lambda>k. formatScheduleDate (fixed_offset tza) (Num (c + int k * msPerDay))) [0..<n])"
  using assms(1-4) unfolding n_def
proof (induction "nat (w - i)" arbitrary: i c acc)
  case 0
  then have "\<not> i < w" by simp
  then show ?case using 0 by (simp add: work_days_stop TimeClip_in_range)
next
  case (Suc m)
  then have iw: "i < w" and m: "nat (w - (i + 1)) = m" by linarith+
  note step = work_days_step [OF iw Suc.prems(2), of tza acc]
  show ?case
  proof (cases "c + msPerDay \<le> e")
    case True
    have clip: "TimeClip (c + msPerDay) = Num (c + msPerDay)"
      using True Suc.prems msPerDay_pos by (intro TimeClip_in_range) linarith+
    have ih: "work_days (fixed_offset tza) (Num e) w (i + 1) (Num (c + msPerDay)) (acc @ [formatScheduleDate (fixed_offset tza) (Num c)]) =
       (TimeClip (c + msPerDay + int (min (nat (w - (i + 1))) (nat ((e - (c + msPerDay)) div msPerDay + 1))) * msPerDay),
        (acc @ [formatScheduleDate (fixed_offset tza) (Num c)]) @
        map (\<lambda>k. formatScheduleDate (fixed_offset tza) (Num (c + msPerDay + int k * msPerDay)))
         [0..<min (nat (w - (i + 1))) (nat ((e - (c + msPerDay)) div msPerDay + 1))])"
      using Suc.prems msPerDay_pos iw True
      by (intro Suc.hyps(1)) (simp_all add: m)
    define n' where "n' = min (nat (w - (i + 1))) (nat ((e - (c + msPerDay)) div msPerDay + 1))"
    have n: "min (nat (w - i)) (nat ((e - c) div msPerDay + 1)) = Suc n'"
      using days_left_step [OF True] iw by (simp add: n'_def)
    have t: "c + msPerDay + int n' * msPerDay = c + int (Suc n') * msPerDay"
      by (simp add: algebra_simps)
    have l: "map (\<lambda>k. formatScheduleDate (fixed_offset tza) (Num (c + int k * msPerDay))) [0..<Suc n'] =
             formatScheduleDate (fixed_offset tza) (Num c) #
             map (\<lambda>k. formatScheduleDate (fixed_offset tza) (Num (c + msPerDay + int k * msPerDay))) [0..<n']"
      by (simp add: map_upt_Suc algebra_simps del: upt_Suc)
    show ?thesis
      unfolding step clip ih n n'_def [symmetric] t l by simp
  next
    case False
    then have last: "(e - c) div msPerDay = 0"
      using days_left_last [of c e] Suc.prems(2) by simp
    have n: "min (nat (w - i)) (nat ((e - c) div msPerDay + 1)) = 1"
      using iw by (simp add: last)
    have "\<not> js_le (TimeClip (c + msPerDay)) (Num e)"
      using False by (intro TimeClip_beyond) simp
    then show ?thesis
      unfolding step n by (simp add: work_days_stop)
  qed
qed


lemma schedule_loop_stop:
  "\<not> js_le cur endDate \<Longrightarrow> schedule_loop (fixed_offset tza) endDate w off cur acc = Some acc"
  by (subst schedule_loop.simps) simp

lemma schedule_loop_step:
  assumes "- maxTime \<le> c" and "c \<le> e" and "e \<le> maxTime" and "0 < w"
  defines "n \<equiv> min (nat w) (nat ((e - c) div msPerDay + 1))"
  shows "schedule_loop (fixed_offset tza) (Num e) w off (Num c) acc =
           schedule_loop (fixed_offset tza) (Num e) w off
             (if c + int n * msPerDay \<le> e then TimeClip (c + int n * msPerDay + off * msPerDay)
              else TimeClip (c + int n * msPerDay))
             (acc @ map (\<lambda>k. formatScheduleDate (fixed_offset tza) (Num (c + int k * msPerDay))) [0..<n])"
proof -
  have run: "work_days (fixed_offset tza) (Num e) w 0 (Num c) acc =
           (TimeClip (c + int n * msPerDay),
            acc @ map (\<lambda>k. formatScheduleDate (fixed_offset tza) (Num (c + int k * msPerDay))) [0..<n])"
    using work_days_run [OF assms(1-3), of 0 w tza acc] assms(4) by (simp add: n_def)
  have nonneg: "0 \<le> int n * msPerDay" using msPerDay_pos by simp
  show ?thesis
  proof (cases "c + int n * msPerDay \<le> e")
    case True
    then have clip: "TimeClip (c + int n * msPerDay) = Num (c + int n * msPerDay)"
      using assms(1,3) nonneg by (intro TimeClip_in_range) linarith+
    show ?thesis
      using True assms(2)
      by (subst schedule_loop.simps) (simp add: run clip setDate_advance)
  next
    case False
    then have "\<not> js_le (TimeClip (c + int n * msPerDay)) (Num e)"
      by (intro TimeClip_beyond) simp
    then show ?thesis
      using False assms(2)
      by (subst schedule_loop.simps) (simp add: run)
  qed
qed

lemma work_cycle_days_empty: "e < c \<Longrightarrow> work_cycle_days c e w off = []"
proof -
  assume "e < c"
  then have "(e - c) div msPerDay < 0"
    using msPerDay_pos by (intro div_neg_pos_less0) simp_all
  then show ?thesis by (simp add: work_cycle_days_def)
qed

lemma work_cycle_days_short:
  assumes "c \<le> e" and "0 < w" and "0 \<le> off" and "(e - c) div msPerDay + 1 \<le> w"
  shows "work_cycle_days c e w off =
           map (\<lambda>j. c + int j * msPerDay) [0..<nat ((e - c) div msPerDay + 1)]"
proof -
  have "\<forall>j \<in> set [0..<nat ((e - c) div msPerDay + 1)]. int j mod (w + off) < w"
  proof
    fix j assume "j \<in> set [0..<nat ((e - c) div msPerDay + 1)]"
    then have "int j < w" using assms(4) by simp
    moreover from this have "int j mod (w + off) = int j"
      using assms(3) by simp
    ultimately show "int j mod (w + off) < w" by simp
  qed
  then show ?thesis by (simp add: work_cycle_days_def)
qed

lemma work_cycle_days_cycle:
  assumes "c \<le> e" and "0 < w" and "0 \<le> off" and "w \<le> (e - c) div msPerDay"
  shows "work_cycle_days c e w off =
           map (\<lambda>j. c + int j * msPerDay) [0..<nat w] @
           work_cycle_days (c + w * msPerDay + off * msPerDay) e w off"
proof -
  define M where "M = (e - c) div msPerDay"
  define p where "p = nat (w + off)"
  define P where "P = (\<lambda>j. int j mod (w + off) < w)"
  have ip: "int p = w + off" using assms(2,3) by (simp add: p_def)
  have M': "(e - (c + w * msPerDay + off * msPerDay)) div msPerDay = M - (w + off)"
  proof -
    have "e - (c + w * msPerDay + off * msPerDay) = e - c - (w + off) * msPerDay"
      by (simp add: algebra_simps)
    then show ?thesis
      by (simp only: Day_minus_days M_def Day_def)
  qed
  have first: "filter P [0..<nat w] = [0..<nat w]"
  proof -
    have "\<forall>j \<in> set [0..<nat w]. P j"
    proof
      fix j assume "j \<in> set [0..<nat w]"
      then have "int j < w" by simp
      moreover from this have "int j mod (w + off) = int j" using assms(3) by simp
      ultimately show "P j" by (simp add: P_def)
    qed
    then show ?thesis by simp
  qed
  have middle: "filter P [nat w..<k] = []" if "k \<le> p" for k
  proof -
    have "\<forall>j \<in> set [nat w..<k]. \<not> P j"
    proof
      fix j assume "j \<in> set [nat w..<k]"
      then have "nat w \<le> j" "j < p" using that by simp_all
      then have j: "w \<le> int j" "int j < w + off" using ip by linarith+
      then have "int j mod (w + off) = int j" using assms(2) by simp
      then show "\<not> P j" using j by (simp add: P_def)
    qed
    then show ?thesis by simp
  qed
  have shifted: "filter P (map (\<lambda>i. i + p) xs) = map (\<lambda>i. i + p) (filter P xs)" for xs
  proof -
    have "P (i + p) = P i" for i
      by (simp add: P_def ip)
    then show ?thesis by (simp add: filter_map comp_def)
  qed
  show ?thesis
  proof (cases "M + 1 \<le> w + off")
    case True
    then have k: "nat (M + 1) \<le> p" "nat w \<le> nat (M + 1)"
      using assms(4) ip by (simp_all add: M_def)
    have "[0..<nat (M + 1)] = [0..<nat w] @ [nat w..<nat (M + 1)]"
      using k(2) upt_add_eq_append [of 0 "nat w" "nat (M + 1) - nat w"] by simp
    then have "filter P [0..<nat (M + 1)] = [0..<nat w]"
      using first middle [OF k(1)] by simp
    moreover have "work_cycle_days (c + w * msPerDay + off * msPerDay) e w off = []"
      using True by (simp add: work_cycle_days_def M')
    ultimately show ?thesis
      by (simp add: work_cycle_days_def M_def [symmetric] P_def [symmetric])
  next
    case False
    then have k: "p \<le> nat (M + 1)" "nat w \<le> p"
      using assms(2,3) ip by simp_all
    have len: "nat (M + 1) - p = nat (M - (w + off) + 1)"
      using False ip by simp
    have "[0..<nat (M + 1)] = [0..<nat w] @ [nat w..<p] @ [p..<nat (M + 1)]"
      using k upt_add_eq_append [of 0 "nat w" "p - nat w"]
        upt_add_eq_append [of 0 p "nat (M + 1) - p"] by simp
    moreover have "[p..<nat (M + 1)] = map (\<lambda>i. i + p) [0..<nat (M - (w + off) + 1)]"
    proof -
      have "nat (M - (w + off) + 1) + p = nat (M + 1)"
        using len k(1) by linarith
      then show ?thesis
        using map_add_upt [of p "nat (M - (w + off) + 1)"] by simp
    qed
    ultimately have "filter P [0..<nat (M + 1)] =
        [0..<nat w] @ map (\<lambda>i. i + p) (filter P [0..<nat (M - (w + off) + 1)])"
      using first middle [of p] shifted by simp
    then have "work_cycle_days c e w off =
        map (\<lambda>j. c + int j * msPerDay) [0..<nat w] @
        map (\<lambda>j. c + int j * msPerDay)
          (map (\<lambda>i. i + p) (filter P [0..<nat (M - (w + off) + 1)]))"
      by (simp add: work_cycle_days_def M_def [symmetric] P_def [symmetric])
    moreover have "map (\<lambda>j. c + int j * msPerDay) (map (\<lambda>i. i + p) ys) =
        map (\<lambda>j. c + w * msPerDay + off * msPerDay + int j * msPerDay) ys" for ys
      by (simp add: comp_def ip algebra_simps)
    moreover have "work_cycle_days (c + w * msPerDay + off * msPerDay) e w off =
        map (\<lambda>j. c + w * msPerDay + off * msPerDay + int j * msPerDay)
          (filter P [0..<nat (M - (w + off) + 1)])"
      by (simp only: work_cycle_days_def M' P_def)
    ultimately show ?thesis by (simp only:)
  qed
qed


text \<open>The outer loop returns, and what it returns is the stated schedule.\<close>

lemma schedule_loop_closed:
  assumes "0 < w" and "0 \<le> off" and "- maxTime \<le> c" and "e \<le> maxTime"
  shows "schedule_loop (fixed_offset tza) (Num e) w off (Num c) acc =
           Some (acc @ map (\<lambda>t. formatScheduleDate (fixed_offset tza) (Num t)) (work_cycle_days c e w off))"
  using assms(3)
proof (induction "nat (e - c + 1)" arbitrary: c acc rule: less_induct)
  case less
  show ?case
  proof (cases "c \<le> e")
    case False
    then show ?thesis
      by (simp add: schedule_loop_stop work_cycle_days_empty)
  next
    case True
    define M where "M = (e - c) div msPerDay"
    define n where "n = min (nat w) (nat (M + 1))"
    define acc1 where
      "acc1 = acc @ map (\<lambda>k. formatScheduleDate (fixed_offset tza) (Num (c + int k * msPerDay))) [0..<n]"
    have M: "msPerDay * M \<le> e - c" "e - c < msPerDay * M + msPerDay"
      unfolding M_def by (rule div_bounds [OF msPerDay_pos])+
    have M0: "0 \<le> M"
      unfolding M_def using True msPerDay_pos by (simp add: pos_imp_zdiv_nonneg_iff)
    have step: "schedule_loop (fixed_offset tza) (Num e) w off (Num c) acc =
           schedule_loop (fixed_offset tza) (Num e) w off
             (if c + int n * msPerDay \<le> e then TimeClip (c + int n * msPerDay + off * msPerDay)
              else TimeClip (c + int n * msPerDay)) acc1"
      unfolding n_def M_def acc1_def
      by (rule schedule_loop_step [OF less.prems True assms(4) assms(1)])
    have maps: "map (\<lambda>k. formatScheduleDate (fixed_offset tza) (Num (c + int k * msPerDay))) xs =
                map (\<lambda>t. formatScheduleDate (fixed_offset tza) (Num t)) (map (\<lambda>j. c + int j * msPerDay) xs)"
      for xs by (simp add: comp_def)
    show ?thesis
    proof (cases "M + 1 \<le> w")
      case short: True
      then have n: "n = nat (M + 1)" by (simp add: n_def)
      have "int n * msPerDay = msPerDay * M + msPerDay"
        using M0 by (simp add: n algebra_simps)
      then have over: "e < c + int n * msPerDay" using M(2) by linarith
      then have "\<not> js_le (TimeClip (c + int n * msPerDay)) (Num e)"
        by (rule TimeClip_beyond)
      then have "schedule_loop (fixed_offset tza) (Num e) w off (Num c) acc = Some acc1"
        unfolding step using over by (simp add: schedule_loop_stop)
      moreover have "work_cycle_days c e w off = map (\<lambda>j. c + int j * msPerDay) [0..<n]"
        using work_cycle_days_short [OF True assms(1,2)] short by (simp add: M_def n)
      ultimately show ?thesis
        by (simp add: acc1_def maps)
    next
      case long: False
      then have n: "int n = w" using assms(1) by (simp add: n_def)
      have n': "n = nat w" using n by simp
      define c' where "c' = c + w * msPerDay + off * msPerDay"
      have "w * msPerDay \<le> msPerDay * M"
        using long msPerDay_pos by (simp add: mult.commute)
      then have inside: "c + int n * msPerDay \<le> e"
        using M(1) by (simp add: n)
      have grow: "c < c'"
        using assms(1,2) msPerDay_pos by (simp add: c'_def add_pos_nonneg)
      have cycle: "work_cycle_days c e w off =
           map (\<lambda>j. c + int j * msPerDay) [0..<n] @ work_cycle_days c' e w off"
        unfolding c'_def n'
        using long by (intro work_cycle_days_cycle [OF True assms(1,2)]) (simp add: M_def)
      have rest: "schedule_loop (fixed_offset tza) (Num e) w off (TimeClip c') acc1 =
           Some (acc1 @ map (\<lambda>t. formatScheduleDate (fixed_offset tza) (Num t)) (work_cycle_days c' e w off))"
      proof (cases "c' \<le> e")
        case True
        then have "TimeClip c' = Num c'"
          using grow less.prems assms(4) by (intro TimeClip_in_range) linarith+
        moreover have "nat (e - c' + 1) < nat (e - c + 1)"
          using grow True by linarith
        moreover have "- maxTime \<le> c'" using grow less.prems by linarith
        ultimately show ?thesis
          using less.hyps [of c' acc1] by simp
      next
        case False
        then have "\<not> js_le (TimeClip c') (Num e)"
          by (intro TimeClip_beyond) simp
        then show ?thesis
          using False by (simp add: schedule_loop_stop work_cycle_days_empty)
      qed
      show ?thesis
        unfolding step using inside rest
        by (simp add: n c'_def cycle acc1_def maps)
    qed
  qed
qed


lemma Date_of_components_range:
  "Date_of_components (fixed_offset tza) y m d = Num t \<Longrightarrow> - maxTime \<le> t \<and> t \<le> maxTime"
  by (cases y; cases m; cases d) (auto simp add: TimeClip_def Let_def split: if_splits)

lemma getWorkSchedule_closed:
  assumes "0 < w" and "0 \<le> off"
  shows "getWorkSchedule (fixed_offset tza) period w off =
           Some (case (parse_schedule_date (fixed_offset tza) (period_start period),
                       parse_schedule_date (fixed_offset tza) (period_end period)) of
                   (Num s, Num e) \<Rightarrow>
                     map (\<lambda>t. formatScheduleDate (fixed_offset tza) (Num t)) (work_cycle_days s e w off)
                 | _ \<Rightarrow> [])"
proof (cases "parse_schedule_date (fixed_offset tza) (period_start period)")
  case NaN
  then show ?thesis by (simp add: getWorkSchedule_def schedule_loop_stop)
next
  case s: (Num s)
  show ?thesis
  proof (cases "parse_schedule_date (fixed_offset tza) (period_end period)")
    case NaN
    then show ?thesis using s by (simp add: getWorkSchedule_def schedule_loop_stop)
  next
    case e: (Num e)
    have "- maxTime \<le> s" "e \<le> maxTime"
      using s e Date_of_components_range unfolding parse_schedule_date_def Let_def by blast+
    then show ?thesis
      using s e schedule_loop_closed [OF assms, of s e tza "[]"]
      by (simp add: getWorkSchedule_def)
  qed
qed



text \<open>
  Claim C3. For positive countWorkDays and countOffDays, getWorkSchedule returns a
  schedule (the loop is left), whatever the period: start before, at or after end, or a
  string that is no date at all.
\<close>

theorem getWorkSchedule_terminates:
  assumes "0 < countWorkDays" and "0 < countOffDays"
  shows "\<exists>schedule. getWorkSchedule (fixed_offset tza) period countWorkDays countOffDays = Some schedule"
  using getWorkSchedule_closed [of countWorkDays countOffDays tza period] assms by simp

theorem getWorkSchedule_terminates_witness:
  "\<exists>schedule. getWorkSchedule (fixed_offset 0) \<lparr>period_start = ''01-01-2024'', period_end = ''10-01-2024''\<rparr> 1 1
      = Some schedule"
  using getWorkSchedule_terminates [of 1 1 0 "\<lparr>period_start = ''01-01-2024'', period_end = ''10-01-2024''\<rparr>"]
  by simp





















end
